theory Spec2Isabelle
  imports Complex_Main "HOL-Library.AList" "HOL-Library.Monad_Syntax"
begin

text \<open>
  A model of the scan orchestration and findings aggregation of the NULL Scan web
  client: the network scan session and its vulnerability lookups
  (\<^verbatim>\<open>NetworkScanSection\<close>), the code review batch (\<^verbatim>\<open>CodeReviewSection\<close>),
  the statistics, score and exported report (\<^verbatim>\<open>SecurityReportExporter\<close>) and the
  severity buckets of a contract analysis (\<^verbatim>\<open>SolidityAnalysisSection\<close>).
  React state is passed explicitly, requests to the back end are answered by an
  environment, and what a run does is recorded as a list of events.
\<close>

section \<open>JavaScript values\<close>

text \<open>
  The components exchange JSON payloads with the back end and read them with the usual
  JavaScript idioms (truthiness tests, optional chaining, \<^verbatim>\<open>Object.keys\<close>).
  A payload is a value of \<open>json\<close>. An object is an association list in the order
  in which \<^verbatim>\<open>Object.keys\<close> enumerates it; its keys are distinct. Numbers
  are integers here, which is all the code under study reads from a payload. A string
  is the list of its code units, and the strings considered here hold code units below
  256 only (the Latin-1 range), which is what a \<open>char\<close> can hold.

  An operation that raises a \<^verbatim>\<open>TypeError\<close> in JavaScript returns \<open>None\<close>.
\<close>

datatype json =
    JUndefined
  | JNull
  | JBool bool
  | JNum int
  | JStr string
  | JArr "json list"
  | JObj "(string \<times> json) list"

text \<open>\<^verbatim>\<open>if (x)\<close>, \<^verbatim>\<open>x && ...\<close>, \<^verbatim>\<open>x || ...\<close>, \<^verbatim>\<open>!x\<close>.\<close>

fun truthy :: "json \<Rightarrow> bool" where
  "truthy JUndefined = False"
| "truthy JNull = False"
| "truthy (JBool b) = b"
| "truthy (JNum n) = (n \<noteq> 0)"
| "truthy (JStr s) = (s \<noteq> [])"
| "truthy (JArr xs) = True"
| "truthy (JObj kvs) = True"

fun nullish :: "json \<Rightarrow> bool" where
  "nullish JUndefined = True"
| "nullish JNull = True"
| "nullish v = False"

text \<open>
  \<^verbatim>\<open>x.k\<close> for the property names the components read (none of them is a
  built-in property of a string, an array, a number or a boolean): a
  \<^verbatim>\<open>TypeError\<close> on \<^verbatim>\<open>null\<close> and \<^verbatim>\<open>undefined\<close>, the stored
  value on an object that has the key, \<^verbatim>\<open>undefined\<close> otherwise.
\<close>

fun get_prop :: "json \<Rightarrow> string \<Rightarrow> json option" where
  "get_prop JUndefined k = None"
| "get_prop JNull k = None"
| "get_prop (JObj kvs) k = Some (case map_of kvs k of None \<Rightarrow> JUndefined | Some v \<Rightarrow> v)"
| "get_prop v k = Some JUndefined"

text \<open>\<^verbatim>\<open>x?.k\<close>: \<^verbatim>\<open>undefined\<close> when \<open>x\<close> is nullish, never an error.\<close>

definition opt_prop :: "json \<Rightarrow> string \<Rightarrow> json" where
  "opt_prop x k = (case get_prop x k of None \<Rightarrow> JUndefined | Some v \<Rightarrow> v)"

text \<open>Decimal rendering of an array index or a status code.\<close>

function show_nat :: "nat \<Rightarrow> string" where
  "show_nat n =
     (if n < 10 then [char_of (48 + n)]
      else show_nat (n div 10) @ [char_of (48 + n mod 10)])"
  by pat_completeness auto
termination
  by (relation "measure (\<lambda>n. n)") auto

declare show_nat.simps [simp del]

definition indices :: "nat \<Rightarrow> string list" where
  "indices n = map show_nat [0..<n]"

text \<open>
  \<^verbatim>\<open>Object.entries(x)\<close>: an error on a nullish argument, the own enumerable
  properties otherwise (the elements of an array and the characters of a string under
  their indices, nothing for a number or a boolean).
\<close>

fun object_entries :: "json \<Rightarrow> (string \<times> json) list option" where
  "object_entries JUndefined = None"
| "object_entries JNull = None"
| "object_entries (JObj kvs) = Some kvs"
| "object_entries (JArr xs) = Some (zip (indices (length xs)) xs)"
| "object_entries (JStr s) = Some (zip (indices (length s)) (map (\<lambda>c. JStr [c]) s))"
| "object_entries v = Some []"

definition object_keys :: "json \<Rightarrow> string list option" where
  "object_keys x = map_option (map fst) (object_entries x)"

fun is_array :: "json \<Rightarrow> bool" where
  "is_array (JArr xs) = True"
| "is_array v = False"

text \<open>\<^verbatim>\<open>typeof x === 'object'\<close> (true of \<^verbatim>\<open>null\<close> as well).\<close>

fun typeof_object :: "json \<Rightarrow> bool" where
  "typeof_object JNull = True"
| "typeof_object (JArr xs) = True"
| "typeof_object (JObj kvs) = True"
| "typeof_object v = False"

section \<open>Numbers\<close>

text \<open>
  A JavaScript number is an IEEE 754 double, and every arithmetic operation gives the
  double nearest to the exact result, a tie going to the neighbour whose last bit is
  zero. A double is taken here as the real number it stands for. \<open>to_double x\<close>
  is the double nearest to \<open>x\<close>: with \<open>e\<close> the binary exponent of
  \<open>x\<close> (not below \<open>-1022\<close>, where the subnormal numbers begin), the doubles
  around \<open>x\<close> are the multiples of \<open>2 ^ (e - 52)\<close>. Results of magnitude
  \<open>2 ^ 1024\<close> and above, which JavaScript turns into \<^verbatim>\<open>Infinity\<close>, do
  not occur in the computations below, whose operands are lengths of arrays (below
  \<open>2 ^ 32\<close>) and small constants.
\<close>

definition round_half_even :: "real \<Rightarrow> int" where
  "round_half_even x =
     (let n = \<lfloor>x\<rfloor>; d = x - of_int n
      in if d < 1 / 2 then n else if 1 / 2 < d then n + 1 else if even n then n else n + 1)"

text \<open>How often \<open>x\<close> is halved until it is below 2, and doubled until it reaches 1.\<close>

fun halvings :: "nat \<Rightarrow> real \<Rightarrow> nat" where
  "halvings 0 x = 0"
| "halvings (Suc k) x = (if x < 2 then 0 else Suc (halvings k (x / 2)))"

fun doublings :: "nat \<Rightarrow> real \<Rightarrow> nat" where
  "doublings 0 x = 0"
| "doublings (Suc k) x = (if 1 \<le> x then 0 else Suc (doublings k (x * 2)))"

definition exponent :: "real \<Rightarrow> int" where
  "exponent x = (if 1 \<le> x then int (halvings 1023 x) else - int (doublings 1022 x))"

definition pow2 :: "int \<Rightarrow> real" where
  "pow2 e = (if 0 \<le> e then 2 ^ nat e else 1 / 2 ^ nat (- e))"

definition to_double :: "real \<Rightarrow> real" where
  "to_double x =
     (if x = 0 then 0
      else (let ulp = pow2 (exponent \<bar>x\<bar> - 52)
            in of_int (round_half_even (x / ulp)) * ulp))"

text \<open>\<^verbatim>\<open>a - b\<close>, \<^verbatim>\<open>a * b\<close>, \<^verbatim>\<open>a / b\<close> (for \<open>b\<close> other than 0).\<close>

definition js_sub :: "real \<Rightarrow> real \<Rightarrow> real" where
  "js_sub a b = to_double (a - b)"

definition js_mul :: "real \<Rightarrow> real \<Rightarrow> real" where
  "js_mul a b = to_double (a * b)"

definition js_div :: "real \<Rightarrow> real \<Rightarrow> real" where
  "js_div a b = to_double (a / b)"

text \<open>
  \<^verbatim>\<open>Math.round\<close>: the nearest integer, a tie going up. It is exact on a
  double.
\<close>

definition math_round :: "real \<Rightarrow> int" where
  "math_round x = \<lfloor>x + 1 / 2\<rfloor>"

section \<open>Lifecycle of a reviewed file\<close>

datatype status = PENDING | PROCESSING | COMPLETED | ERROR

text \<open>
  One entry of \<^verbatim>\<open>fileResults\<close>: \<^verbatim>\<open>{ status, result, error }\<close>. The fields
  \<open>result\<close> and \<open>error\<close> hold \<open>JNull\<close> for \<^verbatim>\<open>null\<close>.
\<close>

record file_record =
  status :: status
  result :: json
  error :: json

type_synonym file_results = "(string \<times> file_record) list"

section \<open>Statistics and the security score\<close>

record network_stats =
  openPorts :: nat
  sslIssues :: nat
  httpIssues :: nat

record code_stats =
  totalFiles :: nat
  completedFiles :: nat
  errorFiles :: nat

text \<open>\<^verbatim>\<open>x ? Object.keys(x).length : 0\<close>\<close>

definition keys_length_if_truthy :: "json \<Rightarrow> nat option" where
  "keys_length_if_truthy x =
     (if truthy x then map_option length (object_keys x) else Some 0)"

definition getNetworkStats :: "json \<Rightarrow> network_stats option" where
  "getNetworkStats results =
     (if \<not> truthy results then Some \<lparr>openPorts = 0, sslIssues = 0, httpIssues = 0\<rparr>
      else do {
        port_scan \<leftarrow> get_prop results ''port_scan'';
        op \<leftarrow> keys_length_if_truthy (opt_prop port_scan ''tcp'');
        ssl \<leftarrow> get_prop results ''ssl_security_findings'';
        si \<leftarrow> keys_length_if_truthy ssl;
        http \<leftarrow> get_prop results ''http_security_findings'';
        hi \<leftarrow> keys_length_if_truthy http;
        Some \<lparr>openPorts = op, sslIssues = si, httpIssues = hi\<rparr>
      })"

text \<open>
  \<^verbatim>\<open>getCodeStats\<close> reads the review state of the application itself; \<open>None\<close>
  is a \<^verbatim>\<open>null\<close> state.
\<close>

definition getCodeStats :: "file_results option \<Rightarrow> code_stats" where
  "getCodeStats results =
     (case results of
        None \<Rightarrow> \<lparr>totalFiles = 0, completedFiles = 0, errorFiles = 0\<rparr>
      | Some rs \<Rightarrow>
          \<lparr>totalFiles = length (map fst rs),
           completedFiles = length (filter (\<lambda>r. status r = COMPLETED) (map snd rs)),
           errorFiles = length (filter (\<lambda>r. status r = ERROR) (map snd rs))\<rparr>)"

text \<open>
  The arithmetic of \<^verbatim>\<open>calculateSecurityScore\<close> on the two statistics, every
  operation in doubles. The counts are lengths of arrays, which are doubles exactly.
\<close>

definition security_score :: "network_stats \<Rightarrow> code_stats \<Rightarrow> int" where
  "security_score networkStats codeStats =
     (let score = (100 :: real);
          score = js_sub score (js_mul (real (sslIssues networkStats)) 15);
          score = js_sub score (js_mul (real (httpIssues networkStats)) 10);
          score = js_sub score (js_mul (max 0 (js_sub (real (openPorts networkStats)) 3)) 5);
          score =
            (if totalFiles codeStats > 0
             then js_sub score
                    (js_mul (js_div (real (errorFiles codeStats)) (real (totalFiles codeStats))) 25)
             else score)
      in max 0 (min 100 (math_round score)))"

definition calculateSecurityScore :: "json \<Rightarrow> file_results option \<Rightarrow> int option" where
  "calculateSecurityScore networkResults fileResults = do {
     networkStats \<leftarrow> getNetworkStats networkResults;
     Some (security_score networkStats (getCodeStats fileResults))
   }"

text \<open>
  The dashboard of the network section counts findings with its own helper, which also
  asks for \<^verbatim>\<open>typeof x === 'object'\<close> and reads the payload without a
  guard on the payload itself.
\<close>

record security_findings_count =
  sslCount :: nat
  httpCount :: nat

definition keys_length_if_object :: "json \<Rightarrow> nat option" where
  "keys_length_if_object x =
     (if truthy x \<and> typeof_object x then map_option length (object_keys x) else Some 0)"

definition getSecurityFindingsCount :: "json \<Rightarrow> security_findings_count option" where
  "getSecurityFindingsCount results = do {
     ssl \<leftarrow> get_prop results ''ssl_security_findings'';
     sc \<leftarrow> keys_length_if_object ssl;
     http \<leftarrow> get_prop results ''http_security_findings'';
     hc \<leftarrow> keys_length_if_object http;
     Some \<lparr>sslCount = sc, httpCount = hc\<rparr>
   }"

section \<open>Requests to the back end\<close>

text \<open>
  What \<^verbatim>\<open>await fetch(...)\<close> followed by \<^verbatim>\<open>response.json()\<close> can give:
  the request is rejected with an error message, or a response arrives with its
  \<^verbatim>\<open>ok\<close> flag, status code and status text, and a body whose parsing either
  fails with a message (\<open>Inl\<close>) or gives a payload (\<open>Inr\<close>).
\<close>

datatype http_result =
    Rejected string
  | Response bool nat string "string + json"

text \<open>
  The message of the \<^verbatim>\<open>TypeError\<close> a failed property read raises. Its wording
  belongs to the JavaScript engine; only its being a non-empty string matters.
\<close>

definition type_error_message :: string where
  "type_error_message = ''TypeError: cannot read properties of null or undefined''"

definition http_error_message :: "nat \<Rightarrow> string \<Rightarrow> string" where
  "http_error_message code statusText = ''HTTP '' @ show_nat code @ '': '' @ statusText"

section \<open>Service fingerprints\<close>

text \<open>
  \<^verbatim>\<open>String.prototype.trim\<close> removes white space and line terminators from
  both ends. Below 256 these are the code units 9 to 13, 32 and 160 (the no-break
  space). Calling \<^verbatim>\<open>x.trim()\<close> on a value that is not a string is a
  \<^verbatim>\<open>TypeError\<close>.
\<close>

definition is_space :: "char \<Rightarrow> bool" where
  "is_space c = (of_char c \<in> {9, 10, 11, 12, 13, 32, 160 :: nat})"

definition trim :: "string \<Rightarrow> string" where
  "trim s = rev (dropWhile is_space (rev (dropWhile is_space s)))"

fun string_trim :: "json \<Rightarrow> string option" where
  "string_trim (JStr s) = Some (trim s)"
| "string_trim v = None"

record fingerprint =
  port :: string
  product :: string
  version :: string
  service :: json

text \<open>The product name a port entry carries, trimmed; empty when it carries none.\<close>

definition entry_product :: "json \<Rightarrow> string" where
  "entry_product info =
     (case get_prop info ''product'' of Some (JStr s) \<Rightarrow> trim s | _ \<Rightarrow> [])"

text \<open>The body of the \<^verbatim>\<open>forEach\<close> callback: it pushes one entry or none.\<close>

definition product_of_entry :: "string \<Rightarrow> json \<Rightarrow> fingerprint list option" where
  "product_of_entry prt info = do {
     p \<leftarrow> get_prop info ''product'';
     if \<not> truthy p then Some []
     else do {
       t \<leftarrow> string_trim p;
       if t = [] then Some []
       else do {
         v \<leftarrow> get_prop info ''version'';
         ver \<leftarrow> (if truthy v then string_trim v else Some []);
         n \<leftarrow> get_prop info ''name'';
         Some [\<lparr>port = prt, product = t, version = ver,
                service = (if truthy n then n else JStr ''unknown'')\<rparr>]
       }
     }
   }"

fun collect_products :: "(string \<times> json) list \<Rightarrow> fingerprint list option" where
  "collect_products [] = Some []"
| "collect_products ((prt, info) # es) = do {
     a \<leftarrow> product_of_entry prt info;
     b \<leftarrow> collect_products es;
     Some (a @ b)
   }"

definition table_products :: "json \<Rightarrow> fingerprint list option" where
  "table_products tcp =
     (if truthy tcp then do { es \<leftarrow> object_entries tcp; collect_products es }
      else Some [])"

definition extractProductsFromScanResults :: "json \<Rightarrow> fingerprint list option" where
  "extractProductsFromScanResults results = do {
     port_scan \<leftarrow> get_prop results ''port_scan'';
     a \<leftarrow> table_products (opt_prop port_scan ''tcp'');
     legacy \<leftarrow> get_prop results ''tcp'';
     b \<leftarrow> table_products legacy;
     Some (a @ b)
   }"

text \<open>The entries of a port table that the callback visits: none for a table that is not there.\<close>

definition table_entries :: "json \<Rightarrow> (string \<times> json) list" where
  "table_entries tcp =
     (if truthy tcp then (case object_entries tcp of None \<Rightarrow> [] | Some es \<Rightarrow> es) else [])"

section \<open>Vulnerability lookups\<close>

text \<open>
  The lookup service answers the \<open>n\<close>-th call of a run with an \<open>http_result\<close>
  after some number of milliseconds. A run of \<^verbatim>\<open>fetchCveData\<close> is observed
  as its sequence of events: a call issued, a call settled after its latency, a timer
  awaited.
\<close>

type_synonym lookup_service = "nat \<Rightarrow> http_result \<times> nat"

datatype event =
    Lookup string string
  | Settled nat
  | Sleep nat

text \<open>\<^verbatim>\<open>{...data}\<close>: the own properties of \<open>data\<close>, none for a nullish value.\<close>

definition spread :: "json \<Rightarrow> (string \<times> json) list" where
  "spread data = (case object_entries data of None \<Rightarrow> [] | Some es \<Rightarrow> es)"

text \<open>\<^verbatim>\<open>{ ...props, port, service, version }\<close> for a fingerprint.\<close>

definition with_port_info :: "fingerprint \<Rightarrow> (string \<times> json) list \<Rightarrow> json" where
  "with_port_info f props =
     JObj (AList.update ''version'' (JStr (version f))
            (AList.update ''service'' (service f)
              (AList.update ''port'' (JStr (port f)) props)))"

text \<open>
  What one answer stores under the product: nothing when the call or the parsing of its
  body throws (the \<^verbatim>\<open>catch\<close> encloses the loop, so the run ends there).
\<close>

fun lookup_entry :: "http_result \<Rightarrow> fingerprint \<Rightarrow> json option" where
  "lookup_entry (Rejected msg) f = None"
| "lookup_entry (Response ok code statusText body) f =
     (if ok then
        (case body of
           Inl msg \<Rightarrow> None
         | Inr data \<Rightarrow> Some (with_port_info f (spread data)))
      else
        Some (with_port_info f
               [(''cves'', JArr []), (''error'', JStr ''Failed to fetch CVE data'')]))"

text \<open>A call that does not throw: it is answered, and a success answer has a body that parses.\<close>

fun settles :: "http_result \<Rightarrow> bool" where
  "settles (Rejected msg) = False"
| "settles (Response ok code statusText body) =
     (case body of Inl msg \<Rightarrow> \<not> ok | Inr data \<Rightarrow> True)"

fun fetchCveData_loop ::
  "lookup_service \<Rightarrow> nat \<Rightarrow> fingerprint list \<Rightarrow> (string \<times> json) list
     \<Rightarrow> (string \<times> json) list \<times> event list" where
  "fetchCveData_loop srv n [] cveResults = (cveResults, [])"
| "fetchCveData_loop srv n (f # fs) cveResults =
     (if product f = [] then fetchCveData_loop srv n fs cveResults
      else
        (case lookup_entry (fst (srv n)) f of
           None \<Rightarrow> (cveResults, [Lookup (product f) (version f), Settled (snd (srv n))])
         | Some e \<Rightarrow>
             (case fetchCveData_loop srv (Suc n) fs (AList.update (product f) e cveResults) of
                (r, evs) \<Rightarrow>
                  (r, Lookup (product f) (version f) # Settled (snd (srv n)) # Sleep 1000 # evs))))"

definition fetchCveData ::
  "lookup_service \<Rightarrow> fingerprint list \<Rightarrow> (string \<times> json) list \<times> event list" where
  "fetchCveData srv products = fetchCveData_loop srv 0 products []"

text \<open>
  The ports the dashboard lists, \<^verbatim>\<open>Object.entries(getPortData(networkResults))\<close>,
  and what it reads for one of them from the looked-up data:
  \<^verbatim>\<open>hasProduct && cveData[info.product]\<close>, with the product name as the port
  entry has it. The looked-up data has a property for each product that was stored and
  no other (product names are taken not to be names that every object inherits).
\<close>

definition getPortData :: "json \<Rightarrow> json option" where
  "getPortData results = do {
     port_scan \<leftarrow> get_prop results ''port_scan'';
     if truthy (opt_prop port_scan ''tcp'') then get_prop port_scan ''tcp''
     else do {
       legacy \<leftarrow> get_prop results ''tcp'';
       Some (if truthy legacy then legacy else JObj [])
     }
   }"

definition hasCveData :: "(string \<times> json) list \<Rightarrow> json \<Rightarrow> json option" where
  "hasCveData stored info = do {
     p \<leftarrow> get_prop info ''product'';
     hasProduct \<leftarrow> (if truthy p then map_option JStr (string_trim p) else Some p);
     if truthy hasProduct then
       (case p of
          JStr s \<Rightarrow> Some (case map_of stored s of None \<Rightarrow> JUndefined | Some d \<Rightarrow> d)
        | _ \<Rightarrow> None)
     else Some hasProduct
   }"

text \<open>Observations on a run.\<close>

fun lookups :: "event list \<Rightarrow> (string \<times> string) list" where
  "lookups [] = []"
| "lookups (Lookup p v # evs) = (p, v) # lookups evs"
| "lookups (e # evs) = lookups evs"

fun elapsed :: "event list \<Rightarrow> nat" where
  "elapsed [] = 0"
| "elapsed (Lookup p v # evs) = elapsed evs"
| "elapsed (Settled t # evs) = t + elapsed evs"
| "elapsed (Sleep t # evs) = t + elapsed evs"

text \<open>The time spent in timers from the head of a run up to its next call.\<close>

fun sleep_before_next :: "event list \<Rightarrow> nat" where
  "sleep_before_next [] = 0"
| "sleep_before_next (Lookup p v # evs) = 0"
| "sleep_before_next (Settled t # evs) = sleep_before_next evs"
| "sleep_before_next (Sleep t # evs) = t + sleep_before_next evs"

text \<open>
  \<open>spaced d evs\<close>: every call of the run that is followed by another call is
  separated from it by timers of at least \<open>d\<close> milliseconds.
\<close>

fun spaced :: "nat \<Rightarrow> event list \<Rightarrow> bool" where
  "spaced d [] = True"
| "spaced d (Lookup p v # evs) =
     ((lookups evs = [] \<or> d \<le> sleep_before_next evs) \<and> spaced d evs)"
| "spaced d (e # evs) = spaced d evs"

section \<open>The network scan session\<close>

definition SCAN_STEPS :: "(string \<times> string) list" where
  "SCAN_STEPS =
     [(''port_scan'', ''Port Scanning''),
      (''ssl_check'', ''SSL Security''),
      (''http_check'', ''HTTP Security''),
      (''vulnerability'', ''Vulnerability Assessment''),
      (''cve_lookup'', ''CVE Analysis'')]"

record scan_state =
  networkStatus :: status
  networkProgress :: real
  currentScanStep :: nat
  networkResults :: json
  cveData :: "(string \<times> json) list"

text \<open>
  The loop that walks through the steps before the scan request is sent; it returns the
  state after each iteration.
\<close>

function simulate_steps :: "nat \<Rightarrow> scan_state \<Rightarrow> scan_state list" where
  "simulate_steps i s =
     (if i < length SCAN_STEPS - 1 then
        (let s' = s\<lparr>currentScanStep := i,
                     networkProgress := js_mul (js_div (real i) (real (length SCAN_STEPS))) 80\<rparr>
         in s' # simulate_steps (i + 1) s')
      else [])"
  by pat_completeness auto
termination
  by (relation "measure (\<lambda>(i, s). length SCAN_STEPS - 1 - i)") auto

declare simulate_steps.simps [simp del]

text \<open>The \<^verbatim>\<open>catch\<close> branch of the session.\<close>

definition scan_failed :: "string \<Rightarrow> scan_state \<Rightarrow> scan_state" where
  "scan_failed msg s = s\<lparr>networkStatus := ERROR, networkResults := JObj [(''error'', JStr msg)]\<rparr>"

text \<open>
  What happens once the scan request has settled, from the state \<open>s\<close> the step loop
  left: the states the session goes through, in order.
\<close>

definition after_scan :: "http_result \<Rightarrow> lookup_service \<Rightarrow> scan_state \<Rightarrow> scan_state list" where
  "after_scan resp srv s =
     (case resp of
        Rejected msg \<Rightarrow> [scan_failed msg s]
      | Response ok code statusText body \<Rightarrow>
          if \<not> ok then [scan_failed (http_error_message code statusText) s]
          else
            (case body of
               Inl msg \<Rightarrow> [scan_failed msg s]
             | Inr data \<Rightarrow>
                 (let s2 = s\<lparr>networkResults := data, networkProgress := 80, currentScanStep := 4\<rparr>
                  in case extractProductsFromScanResults data of
                       None \<Rightarrow> [s2, scan_failed type_error_message s2]
                     | Some products \<Rightarrow>
                         (let s3 = (if length products > 0
                                    then s2\<lparr>cveData := fst (fetchCveData srv products)\<rparr>
                                    else s2)
                          in [s2, s3\<lparr>networkStatus := COMPLETED, networkProgress := 100\<rparr>]))))"

definition handleNetworkScan ::
  "string \<Rightarrow> http_result \<Rightarrow> lookup_service \<Rightarrow> scan_state \<Rightarrow> scan_state list" where
  "handleNetworkScan target resp srv s =
     (if target = [] then []
      else
        (let s0 = s\<lparr>networkStatus := PROCESSING, networkProgress := 0,
                     currentScanStep := 0, cveData := []\<rparr>;
             sim = simulate_steps 0 s0
         in s0 # sim @ after_scan resp srv (last (s0 # sim))))"

section \<open>The code review batch\<close>

text \<open>
  The review endpoint, as the batch sees it: the outcome of the request for a file name
  and its source text.
\<close>

type_synonym review_service = "string \<Rightarrow> string \<Rightarrow> http_result"

text \<open>\<^verbatim>\<open>handleZipUpload\<close> starts every text file of the archive as pending.\<close>

definition initialResults :: "(string \<times> string) list \<Rightarrow> file_results" where
  "initialResults textFiles =
     map (\<lambda>(filename, sourceCode).
            (filename, \<lparr>status = PENDING, result = JNull, error = JNull\<rparr>)) textFiles"

text \<open>The \<^verbatim>\<open>catch\<close> branch of \<^verbatim>\<open>reviewSingleFile\<close>.\<close>

definition failed_review :: "string \<Rightarrow> file_record" where
  "failed_review msg =
     \<lparr>status = ERROR, result = JNull,
      error = JStr (if msg \<noteq> [] then msg else ''Unknown error occurred'')\<rparr>"

text \<open>
  The record the \<^verbatim>\<open>try\<close> block ends with, for each outcome of the request.
  A state setter is taken to apply the function it is given at the call, so that the
  \<^verbatim>\<open>TypeError\<close> of reading \<^verbatim>\<open>data.result\<close> from a
  \<^verbatim>\<open>null\<close> payload is raised inside the \<^verbatim>\<open>try\<close> block.
\<close>

definition review_outcome :: "http_result \<Rightarrow> file_record" where
  "review_outcome r =
     (case r of
        Rejected msg \<Rightarrow> failed_review msg
      | Response ok code statusText body \<Rightarrow>
          if \<not> ok then failed_review (http_error_message code statusText)
          else
            (case body of
               Inl msg \<Rightarrow> failed_review msg
             | Inr data \<Rightarrow>
                 (case get_prop data ''result'' of
                    None \<Rightarrow> failed_review type_error_message
                  | Some r \<Rightarrow>
                      \<lparr>status = COMPLETED,
                       result = (if truthy r then r else JStr ''No response received from server''),
                       error = JNull\<rparr>)))"

text \<open>
  \<^verbatim>\<open>{ ...prev, [filename]: { ...prev[filename], status: STATUS.PROCESSING } }\<close>:
  an entry that was not there yet has no other field.
\<close>

definition mark_processing :: "string \<Rightarrow> file_results \<Rightarrow> file_results" where
  "mark_processing filename prev =
     AList.update filename
       (case map_of prev filename of
          None \<Rightarrow> \<lparr>status = PROCESSING, result = JUndefined, error = JUndefined\<rparr>
        | Some r \<Rightarrow> r\<lparr>status := PROCESSING\<rparr>)
       prev"

text \<open>What a run does, in order: state updates and requests.\<close>

datatype review_event =
    FileResultsSet file_results
  | ReviewRequest string string
  | CodeProgressSet real
  | ProcessingSet bool

definition reviewSingleFile ::
  "review_service \<Rightarrow> string \<Rightarrow> string \<Rightarrow> file_results
     \<Rightarrow> file_results \<times> review_event list" where
  "reviewSingleFile rv filename sourceCode prev =
     (let p1 = mark_processing filename prev;
          p2 = AList.update filename (review_outcome (rv filename sourceCode)) p1
      in (p2, [FileResultsSet p1, ReviewRequest filename sourceCode, FileResultsSet p2]))"

fun review_loop ::
  "review_service \<Rightarrow> nat \<Rightarrow> nat \<Rightarrow> (string \<times> string) list \<Rightarrow> file_results
     \<Rightarrow> file_results \<times> review_event list" where
  "review_loop rv nfiles completed [] fr = (fr, [])"
| "review_loop rv nfiles completed ((filename, sourceCode) # rest) fr =
     (case reviewSingleFile rv filename sourceCode fr of
        (fr1, evs1) \<Rightarrow>
          (case review_loop rv nfiles (Suc completed) rest fr1 of
             (fr2, evs2) \<Rightarrow>
               (fr2, evs1
                     @ CodeProgressSet (js_mul (js_div (real (Suc completed)) (real nfiles)) 100)
                     # evs2)))"

definition handleCodeReview ::
  "review_service \<Rightarrow> (string \<times> string) list \<Rightarrow> file_results
     \<Rightarrow> file_results \<times> review_event list" where
  "handleCodeReview rv zipFiles fr =
     (if length (map fst zipFiles) = 0 then (fr, [])
      else
        (case review_loop rv (length (map fst zipFiles)) 0 zipFiles fr of
           (fr', evs) \<Rightarrow>
             (fr', ProcessingSet True # CodeProgressSet 0 # evs @ [ProcessingSet False])))"


fun progress_reports :: "review_event list \<Rightarrow> real list" where
  "progress_reports [] = []"
| "progress_reports (CodeProgressSet p # evs) = p # progress_reports evs"
| "progress_reports (e # evs) = progress_reports evs"


fun states :: "review_event list \<Rightarrow> file_results list" where
  "states [] = []"
| "states (FileResultsSet fr # evs) = fr # states evs"
| "states (e # evs) = states evs"

text \<open>The lifecycle invariant of one record, and of a whole review state.\<close>

fun is_message :: "json \<Rightarrow> bool" where
  "is_message (JStr msg) = (msg \<noteq> [])"
| "is_message v = False"

definition record_ok :: "file_record \<Rightarrow> bool" where
  "record_ok r =
     ((status r = COMPLETED \<longrightarrow> \<not> nullish (result r) \<and> error r = JNull) \<and>
      (status r = ERROR \<longrightarrow> is_message (error r) \<and> result r = JNull))"

definition all_records_ok :: "file_results \<Rightarrow> bool" where
  "all_records_ok fr = list_all (\<lambda>(filename, r). record_ok r) fr"

section \<open>Contract findings by severity\<close>

record finding =
  finding_id :: json
  finding_title :: json
  finding_impact :: json
  finding_confidence :: json
  finding_type :: json
  finding_patch :: json

record findings =
  high :: "finding list"
  medium :: "finding list"
  low :: "finding list"
  informational :: "finding list"
  optimization :: "finding list"

definition empty_findings :: findings where
  "empty_findings = \<lparr>high = [], medium = [], low = [], informational = [], optimization = []\<rparr>"

text \<open>\<^verbatim>\<open>a || b\<close>\<close>

definition or_else :: "json \<Rightarrow> json \<Rightarrow> json" where
  "or_else a b = (if truthy a then a else b)"

text \<open>
  The lower-case form of a code unit below 256: the letters A to Z, and the accented
  capitals 192 to 222 apart from the multiplication sign 215.
\<close>

definition lower_char :: "char \<Rightarrow> char" where
  "lower_char c =
     (let n = (of_char c :: nat)
      in if (65 \<le> n \<and> n \<le> 90) \<or> (192 \<le> n \<and> n \<le> 222 \<and> n \<noteq> 215)
         then char_of (n + 32) else c)"

text \<open>
  \<^verbatim>\<open>x?.toLowerCase()\<close>: \<^verbatim>\<open>undefined\<close> for a nullish \<open>x\<close>, the lower-case
  string for a string, a \<^verbatim>\<open>TypeError\<close> for anything else.
\<close>

fun opt_lower :: "json \<Rightarrow> json option" where
  "opt_lower JUndefined = Some JUndefined"
| "opt_lower JNull = Some JUndefined"
| "opt_lower (JStr s) = Some (JStr (map lower_char s))"
| "opt_lower v = None"

text \<open>The body of the \<^verbatim>\<open>forEach\<close> callback over the reported vulnerabilities.\<close>

definition push_finding :: "findings \<Rightarrow> json \<Rightarrow> findings option" where
  "push_finding fs vuln = do {
     imp \<leftarrow> get_prop vuln ''impact'';
     lowered \<leftarrow> opt_lower imp;
     let impact = or_else lowered (JStr ''informational'');
     vid \<leftarrow> get_prop vuln ''id'';
     description \<leftarrow> get_prop vuln ''description'';
     confidence \<leftarrow> get_prop vuln ''confidence'';
     vtype \<leftarrow> get_prop vuln ''type'';
     patch \<leftarrow> get_prop vuln ''patch'';
     let fnd = \<lparr>finding_id = or_else vid (JStr ''unknown''),
                finding_title = or_else description (JStr ''No description available''),
                finding_impact = or_else imp (JStr ''Unknown''),
                finding_confidence = or_else confidence (JStr ''Medium''),
                finding_type = or_else vtype (JStr ''unknown''),
                finding_patch = or_else patch (JStr ''No patch provided'')\<rparr>;
     Some (if impact = JStr ''high'' then fs\<lparr>high := high fs @ [fnd]\<rparr>
           else if impact = JStr ''medium'' then fs\<lparr>medium := medium fs @ [fnd]\<rparr>
           else if impact = JStr ''low'' then fs\<lparr>low := low fs @ [fnd]\<rparr>
           else if impact = JStr ''optimization'' then fs\<lparr>optimization := optimization fs @ [fnd]\<rparr>
           else fs\<lparr>informational := informational fs @ [fnd]\<rparr>)
   }"

fun push_findings :: "findings \<Rightarrow> json list \<Rightarrow> findings option" where
  "push_findings fs [] = Some fs"
| "push_findings fs (vuln # vulns) = do { fs' \<leftarrow> push_finding fs vuln; push_findings fs' vulns }"

definition extractFindingsFromResults :: "json \<Rightarrow> findings option" where
  "extractFindingsFromResults results = do {
     vulnerabilities \<leftarrow> get_prop results ''vulnerabilities'';
     (case vulnerabilities of
        JArr vulns \<Rightarrow> push_findings empty_findings vulns
      | _ \<Rightarrow> Some empty_findings)
   }"

section \<open>The exported report\<close>

text \<open>
  The report is observed as the sequence of its section headers, each with its level
  (\<^verbatim>\<open>addSectionHeader(title, level)\<close>). Drawing and body text are left out.
  The document is saved at the very end of \<^verbatim>\<open>generatePDF\<close>: an error
  anywhere before abandons the report (\<open>None\<close>), and the \<^verbatim>\<open>catch\<close> block
  only raises an alert. The calls into the PDF library are taken to succeed.
\<close>

datatype heading = Heading string nat

text \<open>
  \<^verbatim>\<open>document.getElementById\<close>, as far as the report needs it: whether the
  page has an element with the given id.
\<close>

type_synonym page = "string \<Rightarrow> bool"

text \<open>
  \<^verbatim>\<open>captureChart\<close> returns \<^verbatim>\<open>null\<close> for an element that is not on
  the page. For an element that is there it calls \<^verbatim>\<open>html2canvas(element, ...)\<close>,
  and \<^verbatim>\<open>html2canvas\<close> is bound to what
  \<^verbatim>\<open>await import('html2canvas')\<close> gives, the namespace object of the module
  and not the function the module exports: the call is a \<^verbatim>\<open>TypeError\<close>.
\<close>

definition captureChart :: "page \<Rightarrow> string \<Rightarrow> json option" where
  "captureChart pg elementId = (if pg elementId then None else Some JNull)"

text \<open>The rows under \<^verbatim>\<open>Open Ports\<close> read the name and version of every port.\<close>

definition port_rows :: "json \<Rightarrow> unit list option" where
  "port_rows tcp = do {
     es \<leftarrow> object_entries tcp;
     those (map (\<lambda>(prt, info). do {
              nm \<leftarrow> get_prop info ''name'';
              ver \<leftarrow> get_prop info ''version'';
              Some ()
            }) es)
   }"

text \<open>The rows of a findings table read \<^verbatim>\<open>security_issues\<close> of every port.\<close>

definition findings_rows :: "json \<Rightarrow> json list option" where
  "findings_rows m = do {
     es \<leftarrow> object_entries m;
     those (map (\<lambda>(prt, fnds). get_prop fnds ''security_issues'') es)
   }"

text \<open>\<^verbatim>\<open>m && Object.keys(m).length > 0\<close>, the guard of a findings table.\<close>

definition has_entries :: "json \<Rightarrow> bool" where
  "has_entries m =
     (truthy m \<and> (case object_keys m of None \<Rightarrow> False | Some ks \<Rightarrow> length ks > 0))"

definition findings_section :: "string \<Rightarrow> json \<Rightarrow> heading list option" where
  "findings_section title m =
     (if truthy m then do {
        ks \<leftarrow> object_keys m;
        if length ks > 0 then do { rows \<leftarrow> findings_rows m; Some [Heading title 2] }
        else Some []
      }
      else Some [])"

definition ports_section :: "json \<Rightarrow> heading list option" where
  "ports_section tcp =
     (if truthy tcp then do {
        ks \<leftarrow> object_keys tcp;
        if length ks > 0 then do { rows \<leftarrow> port_rows tcp; Some [Heading ''Open Ports'' 2] }
        else Some []
      }
      else Some [])"

definition network_section :: "page \<Rightarrow> json \<Rightarrow> heading list option" where
  "network_section pg results = do {
     networkChart \<leftarrow> captureChart pg ''network-issues-chart'';
     port_scan \<leftarrow> get_prop results ''port_scan'';
     tcp \<leftarrow> get_prop port_scan ''tcp'';
     ports \<leftarrow> ports_section tcp;
     ssl \<leftarrow> get_prop results ''ssl_security_findings'';
     ssl_part \<leftarrow> findings_section ''SSL/TLS Security'' ssl;
     http \<leftarrow> get_prop results ''http_security_findings'';
     http_part \<leftarrow> findings_section ''HTTP Security'' http;
     Some (Heading ''Network Security Analysis'' 1 # ports @ ssl_part @ http_part)
   }"

text \<open>
  \<^verbatim>\<open>networkResults && Object.keys(networkResults).length > 0 &&
  networkResults.port_scan?.tcp\<close>
\<close>

definition has_network_section :: "json \<Rightarrow> bool option" where
  "has_network_section results =
     (if \<not> truthy results then Some False
      else do {
        ks \<leftarrow> object_keys results;
        if \<not> length ks > 0 then Some False
        else do {
          port_scan \<leftarrow> get_prop results ''port_scan'';
          Some (truthy (opt_prop port_scan ''tcp''))
        }
      })"

definition code_section :: "page \<Rightarrow> file_results option \<Rightarrow> heading list option" where
  "code_section pg fileResults =
     (case fileResults of
        None \<Rightarrow> Some []
      | Some rs \<Rightarrow>
          if length (map fst rs) > 0
          then do {
            codeChart \<leftarrow> captureChart pg ''code-review-chart'';
            Some (Heading ''Source Code Security Review'' 1 #
                  map (\<lambda>(filename, r). Heading (''File: '' @ filename) 2) rs)
          }
          else Some [])"

definition generatePDF :: "page \<Rightarrow> json \<Rightarrow> file_results option \<Rightarrow> heading list option" where
  "generatePDF pg results fileResults = do {
     networkStats \<leftarrow> getNetworkStats results;
     securityScore \<leftarrow> calculateSecurityScore results fileResults;
     securityChart \<leftarrow> captureChart pg ''security-score-chart'';
     shown \<leftarrow> has_network_section results;
     net \<leftarrow> (if shown then network_section pg results else Some []);
     code \<leftarrow> code_section pg fileResults;
     overviewChart \<leftarrow> captureChart pg ''security-overview-chart'';
     Some ([Heading ''Table of Contents'' 1, Heading ''Executive Summary'' 1]
           @ net @ code
           @ [Heading ''Security Recommendations'' 1])
   }"

text \<open>
  The page of the application. \<^verbatim>\<open>SecurityReportExporter\<close> renders the four
  chart elements unconditionally, together with the button that starts the export.
\<close>

definition dashboard_page :: page where
  "dashboard_page elementId =
     (elementId \<in> set [''security-score-chart'', ''network-issues-chart'',
                          ''code-review-chart'', ''security-overview-chart''])"

section \<open>The scoring rule as the specification words it\<close>

text \<open>
  The specification gives the score as a clamped linear expression, with no rounding
  step. \<open>spec_score\<close> follows those words; it is compared with
  \<open>calculateSecurityScore\<close> below.
\<close>

definition spec_score :: "nat \<Rightarrow> nat \<Rightarrow> nat \<Rightarrow> nat \<Rightarrow> nat \<Rightarrow> real" where
  "spec_score sslIssueCount httpIssueCount openPortCount totalReviewedFiles failedReviewCount =
     (let score = 100 - real sslIssueCount * 15 - real httpIssueCount * 10
                  - real_of_int (max 0 (int openPortCount - 3)) * 5;
          score = (if totalReviewedFiles > 0
                   then score - (real failedReviewCount / real totalReviewedFiles) * 25
                   else score)
      in max 0 (min 100 score))"

section \<open>Sample inputs\<close>

definition done_record :: file_record where
  "done_record = \<lparr>status = COMPLETED, result = JStr ''No issues found.'', error = JNull\<rparr>"

definition failed_record :: file_record where
  "failed_record =
     \<lparr>status = ERROR, result = JNull, error = JStr ''HTTP 500: Internal Server Error''\<rparr>"

text \<open>Five open ports, SSL findings on two of them, HTTP findings on one.\<close>

definition score_net :: json where
  "score_net = JObj
     [(''port_scan'', JObj [(''tcp'', JObj
        [(''22'', JObj [(''name'', JStr ''ssh'')]),
         (''80'', JObj [(''name'', JStr ''http'')]),
         (''443'', JObj [(''name'', JStr ''https'')]),
         (''3306'', JObj [(''name'', JStr ''mysql'')]),
         (''8443'', JObj [(''name'', JStr ''https-alt'')])])]),
      (''ssl_security_findings'', JObj
        [(''443'', JObj [(''security_issues'', JArr [JStr ''TLSv1.0 enabled''])]),
         (''8443'', JObj [(''security_issues'',
             JArr [JStr ''weak cipher'', JStr ''expired certificate''])])]),
      (''http_security_findings'', JObj
        [(''80'', JObj [(''security_issues'', JArr [JStr ''missing HSTS''])])])]"

text \<open>Ten reviewed files, two of them failed.\<close>

definition score_files :: file_results where
  "score_files =
     [(''a.js'', done_record), (''b.js'', failed_record), (''c.js'', done_record),
      (''d.js'', done_record), (''e.js'', done_record), (''f.js'', failed_record),
      (''g.js'', done_record), (''h.js'', done_record), (''i.js'', done_record),
      (''j.js'', done_record)]"

text \<open>Three reviewed files, one of them failed.\<close>

definition thirds_files :: file_results where
  "thirds_files = [(''a.js'', failed_record), (''b.js'', done_record), (''c.js'', done_record)]"

text \<open>Two reviewed files, one of them failed.\<close>

definition halves_files :: file_results where
  "halves_files = [(''a.js'', failed_record), (''b.js'', done_record)]"

text \<open>
  No port table, SSL findings on five ports and HTTP findings on two; fifty reviewed
  files, the first seven of them failed.
\<close>

definition findings_only_net :: json where
  "findings_only_net = JObj
     [(''ssl_security_findings'', JObj
        (map (\<lambda>prt. (prt, JObj [(''security_issues'', JArr [JStr ''TLSv1.0 enabled''])]))
           [''443'', ''465'', ''993'', ''995'', ''8443''])),
      (''http_security_findings'', JObj
        (map (\<lambda>prt. (prt, JObj [(''security_issues'', JArr [JStr ''missing HSTS''])]))
           [''80'', ''8080'']))]"

definition fifty_files :: file_results where
  "fifty_files =
     map (\<lambda>i. (show_nat i @ ''.js'', if i < 7 then failed_record else done_record)) [0..<50]"

text \<open>One port that carries three SSL findings and two HTTP findings.\<close>

definition one_port_net :: json where
  "one_port_net = JObj
     [(''ssl_security_findings'', JObj
        [(''443'', JObj [(''security_issues'',
             JArr [JStr ''TLSv1.0 enabled'', JStr ''weak cipher'', JStr ''expired certificate''])])]),
      (''http_security_findings'', JObj
        [(''443'', JObj [(''security_issues'',
             JArr [JStr ''missing HSTS'', JStr ''TRACE enabled''])])])]"

text \<open>A contract analysis whose \<^verbatim>\<open>vulnerabilities\<close> field is a string.\<close>

definition odd_contract :: json where
  "odd_contract = JObj [(''status'', JStr ''success''), (''vulnerabilities'', JStr ''none'')]"

text \<open>A batch of three files: the second request is refused, the third cannot be sent.\<close>

definition batch_files :: "(string \<times> string) list" where
  "batch_files =
     [(''app.js'', ''console.log(1)''), (''db.py'', ''import os''), (''conf.ini'', ''[main]'')]"

definition batch_service :: review_service where
  "batch_service filename sourceCode =
     (if filename = ''app.js''
      then Response True 200 ''OK'' (Inr (JObj [(''result'', JStr ''Looks fine.'')]))
      else if filename = ''db.py''
      then Response False 500 ''Internal Server Error'' (Inl ''Unexpected token'')
      else Rejected ''Failed to fetch'')"



text \<open>A scan that finds the same product behind two ports, and another behind a third.\<close>

definition dup_scan :: json where
  "dup_scan = JObj
     [(''port_scan'', JObj [(''tcp'', JObj
        [(''22'', JObj [(''name'', JStr ''ssh''), (''product'', JStr ''OpenSSH''),
                        (''version'', JStr ''8.2p1'')]),
         (''80'', JObj [(''name'', JStr ''http''), (''product'', JStr ''nginx''),
                        (''version'', JStr ''1.18.0'')]),
         (''8080'', JObj [(''name'', JStr ''http-proxy''), (''product'', JStr ''nginx''),
                          (''version'', JStr ''1.18.0'')])])])]"

text \<open>
  A scan with both port tables. In the current one the product behind port 80 is
  written with a no-break space before it and a space after it, and the same product is
  behind port 8080; the legacy table has one more port.
\<close>

definition padded_scan :: json where
  "padded_scan = JObj
     [(''port_scan'', JObj [(''tcp'', JObj
        [(''80'', JObj [(''name'', JStr ''http''), (''product'', JStr (CHR 0xA0 # ''nginx '')),
                        (''version'', JStr '' 1.18.0'')]),
         (''8080'', JObj [(''product'', JStr ''nginx''), (''version'', JStr ''1.20.1'')])])]),
      (''tcp'', JObj
        [(''25'', JObj [(''name'', JStr ''smtp''), (''product'', JStr ''Postfix'')])])]"

definition fp_ssh :: fingerprint where
  "fp_ssh = \<lparr>port = ''22'', product = ''OpenSSH'', version = ''8.2p1'', service = JStr ''ssh''\<rparr>"

definition fp_nginx_80 :: fingerprint where
  "fp_nginx_80 =
     \<lparr>port = ''80'', product = ''nginx'', version = ''1.18.0'', service = JStr ''http''\<rparr>"

definition fp_nginx_8080 :: fingerprint where
  "fp_nginx_8080 =
     \<lparr>port = ''8080'', product = ''nginx'', version = ''1.18.0'', service = JStr ''http-proxy''\<rparr>"

definition fp_mysql :: fingerprint where
  "fp_mysql =
     \<lparr>port = ''3306'', product = ''MySQL'', version = ''8.0.32'', service = JStr ''mysql''\<rparr>"

text \<open>
  Lookup services: one that answers every call with the number of the call as the only
  vulnerability, after 120 ms; one that refuses every call with a non-success status;
  one whose first call is rejected at once.
\<close>

definition numbering_service :: lookup_service where
  "numbering_service n =
     (Response True 200 ''OK''
        (Inr (JObj [(''cves'', JArr [JObj [(''id'', JNum (int n))]])])), 120)"

definition refusing_service :: lookup_service where
  "refusing_service n = (Response False 503 ''Service Unavailable'' (Inl ''no body''), 120)"

definition broken_service :: lookup_service where
  "broken_service n =
     (if n = 0 then (Rejected ''Failed to fetch'', 0)
      else (Response True 200 ''OK'' (Inr (JObj [(''cves'', JArr [])])), 120))"

text \<open>The state of the application before a scan, and a scan request that succeeds.\<close>

definition idle_state :: scan_state where
  "idle_state = \<lparr>networkStatus = PENDING, networkProgress = 0, currentScanStep = 0,
                  networkResults = JObj [], cveData = []\<rparr>"

definition scan_ok :: http_result where
  "scan_ok = Response True 200 ''OK'' (Inr dup_scan)"

text \<open>A scan result with a port table that has no port, and no findings.\<close>

definition empty_table_scan :: json where
  "empty_table_scan = JObj [(''port_scan'', JObj [(''tcp'', JObj [])])]"

section \<open>Properties\<close>

subsection \<open>Doubles\<close>

lemma round_half_even_of_int: "round_half_even (of_int m) = m"
  by (simp add: round_half_even_def)

lemma halvings_bounds:
  "1 \<le> x \<Longrightarrow> x < 2 ^ Suc k \<Longrightarrow> k \<le> fuel \<Longrightarrow>
     halvings fuel x \<le> k \<and> 2 ^ halvings fuel x \<le> x \<and> x < 2 ^ Suc (halvings fuel x)"
proof (induction fuel arbitrary: x k)
  case 0
  then show ?case by simp
next
  case (Suc fuel)
  show ?case
  proof (cases "x < 2")
    case True
    with Suc.prems show ?thesis by simp
  next
    case False
    then have x2: "2 \<le> x" by simp
    have "k \<noteq> 0" using Suc.prems(2) x2 by (cases k) auto
    then obtain j where k: "k = Suc j" by (cases k) auto
    have "1 \<le> x / 2" using x2 by simp
    moreover have "x / 2 < 2 ^ Suc j" using Suc.prems(2) k by simp
    moreover have "j \<le> fuel" using Suc.prems(3) k by simp
    ultimately have "halvings fuel (x / 2) \<le> j \<and> 2 ^ halvings fuel (x / 2) \<le> x / 2 \<and>
                     x / 2 < 2 ^ Suc (halvings fuel (x / 2))"
      by (rule Suc.IH)
    with False k show ?thesis by simp
  qed
qed

lemma to_double_of_int:
  assumes "\<bar>n\<bar> < 2 ^ 53"
  shows "to_double (of_int n) = of_int n"
proof (cases "n = 0")
  case True
  then show ?thesis by (simp add: to_double_def)
next
  case False
  define x :: real where "x = \<bar>of_int n\<bar>"
  define h where "h = halvings 1023 x"
  have x1: "1 \<le> x" using False by (simp add: x_def)
  have "\<bar>real_of_int n\<bar> < 2 ^ 53"
    using assms by (metis of_int_abs of_int_less_numeral_power_cancel_iff)
  then have xb: "x < 2 ^ Suc 52" by (simp add: x_def)
  from halvings_bounds[OF x1 xb, of 1023] have h: "h \<le> 52" by (simp add: h_def)
  have e: "exponent x = int h" using x1 by (simp add: exponent_def h_def)
  define k where "k = 52 - h"
  have p: "pow2 (int h - 52) = 1 / 2 ^ k"
  proof (cases "h = 52")
    case True
    then show ?thesis by (simp add: pow2_def k_def)
  next
    case False
    with h have "h < 52" by simp
    then have "nat (52 - int h) = k" by (simp add: k_def)
    with \<open>h < 52\<close> show ?thesis by (simp add: pow2_def)
  qed
  have q: "real_of_int n / (1 / 2 ^ k) = of_int (n * 2 ^ k)" by simp
  have "to_double (of_int n) = of_int (round_half_even (real_of_int n / (1 / 2 ^ k))) * (1 / 2 ^ k)"
    using False e p by (simp add: to_double_def x_def Let_def)
  also have "\<dots> = of_int (n * 2 ^ k) * (1 / 2 ^ k)"
    unfolding q round_half_even_of_int ..
  also have "\<dots> = of_int n" by simp
  finally show ?thesis .
qed

lemma network_part:
  assumes "s < 2 ^ 32" and "h < 2 ^ 32" and "p < 2 ^ 32"
  shows "js_sub (js_sub (js_sub 100 (js_mul (real s) 15)) (js_mul (real h) 10))
           (js_mul (max 0 (js_sub (real p) 3)) 5) =
         of_int (100 - 15 * int s - 10 * int h - 5 * max 0 (int p - 3))"
proof -
  have bs: "int s < 4294967296" and bh: "int h < 4294967296" and bp: "int p < 4294967296"
    using assms by simp_all
  have a: "js_mul (real s) 15 = of_int (15 * int s)"
    using to_double_of_int[of "15 * int s"] bs by (simp add: js_mul_def mult.commute)
  have b: "js_mul (real h) 10 = of_int (10 * int h)"
    using to_double_of_int[of "10 * int h"] bh by (simp add: js_mul_def mult.commute)
  have c: "js_sub (real p) 3 = of_int (int p - 3)"
    using to_double_of_int[of "int p - 3"] bp by (simp add: js_sub_def)
  have m: "max 0 (real_of_int (int p - 3)) = of_int (max 0 (int p - 3))"
    by (simp add: max_def)
  have "\<bar>5 * max 0 (int p - 3)\<bar> < 2 ^ 53" using bp by (simp add: max_def)
  from to_double_of_int[OF this]
  have d: "js_mul (of_int (max 0 (int p - 3))) 5 = of_int (5 * max 0 (int p - 3))"
    by (simp add: js_mul_def mult.commute)
  have e: "js_sub 100 (of_int (15 * int s)) = of_int (100 - 15 * int s)"
    using to_double_of_int[of "100 - 15 * int s"] bs by (simp add: js_sub_def)
  have f: "js_sub (of_int (100 - 15 * int s)) (of_int (10 * int h)) =
           of_int (100 - 15 * int s - 10 * int h)"
    using to_double_of_int[of "100 - 15 * int s - 10 * int h"] bs bh by (simp add: js_sub_def)
  have "\<bar>100 - 15 * int s - 10 * int h - 5 * max 0 (int p - 3)\<bar> < 2 ^ 53"
    using bs bh bp by (cases "3 \<le> int p") (simp_all add: max_def abs_if)
  from to_double_of_int[OF this]
  have g: "js_sub (of_int (100 - 15 * int s - 10 * int h)) (of_int (5 * max 0 (int p - 3))) =
           of_int (100 - 15 * int s - 10 * int h - 5 * max 0 (int p - 3))"
    by (simp add: js_sub_def)
  show ?thesis unfolding a b c m d e f g ..
qed



lemma doublings_bounds:
  "0 < x \<Longrightarrow> x < 1 \<Longrightarrow> 1 \<le> x * 2 ^ k \<Longrightarrow> k \<le> fuel \<Longrightarrow>
     doublings fuel x \<le> k \<and> 0 < doublings fuel x \<and>
     1 \<le> x * 2 ^ doublings fuel x \<and> x * 2 ^ doublings fuel x < 2"
proof (induction fuel arbitrary: x k)
  case 0
  then show ?case by simp
next
  case (Suc fuel)
  have "k \<noteq> 0" using Suc.prems(2,3) by (cases k) auto
  then obtain j where k: "k = Suc j" by (cases k) auto
  show ?case
  proof (cases "1 \<le> x * 2")
    case True
    then have "doublings fuel (x * 2) = 0" by (cases fuel) simp_all
    with Suc.prems True k show ?thesis by simp
  next
    case False
    then have lt: "x * 2 < 1" by simp
    have pos: "0 < x * 2" using Suc.prems(1) by simp
    have "1 \<le> x * 2 * 2 ^ j" using Suc.prems(3) k by (simp add: mult.assoc)
    moreover have "j \<le> fuel" using Suc.prems(4) k by simp
    ultimately have "doublings fuel (x * 2) \<le> j \<and> 0 < doublings fuel (x * 2) \<and>
                     1 \<le> x * 2 * 2 ^ doublings fuel (x * 2) \<and>
                     x * 2 * 2 ^ doublings fuel (x * 2) < 2"
      using pos lt by (intro Suc.IH)
    with Suc.prems(2) k show ?thesis by (simp add: mult.assoc)
  qed
qed

lemma doublings_cap:
  "0 < x \<Longrightarrow> x * 2 ^ fuel < 1 \<Longrightarrow> doublings fuel x = fuel"
proof (induction fuel arbitrary: x)
  case 0
  show ?case by simp
next
  case (Suc fuel)
  have "(1::real) \<le> 2 ^ Suc fuel" by (rule one_le_power) simp
  then have "x * 1 \<le> x * 2 ^ Suc fuel"
    using Suc.prems(1) by (intro mult_left_mono) simp_all
  with Suc.prems(2) have lt: "x < 1" by simp
  have "x * 2 * 2 ^ fuel < 1" using Suc.prems(2) by (simp add: mult.assoc)
  with Suc.IH[of "x * 2"] Suc.prems(1) have "doublings fuel (x * 2) = fuel" by simp
  with lt show ?case by simp
qed

text \<open>
  The exponent of a positive number below \<open>2 ^ 1024\<close>: the power of two at or below
  it, and \<open>-1022\<close> for the subnormal numbers.
\<close>

lemma exponent_normal:
  assumes "1 \<le> x" and "x < 2 ^ 1024"
  shows "0 \<le> exponent x \<and> exponent x \<le> 1023 \<and>
         pow2 (exponent x) \<le> x \<and> x < pow2 (exponent x + 1)"
proof -
  have xb: "x < 2 ^ Suc 1023" using assms(2) by simp
  from halvings_bounds[OF assms(1) xb, of 1023]
  have h: "halvings 1023 x \<le> 1023" "2 ^ halvings 1023 x \<le> x"
    "x < 2 ^ Suc (halvings 1023 x)" by simp_all
  have e: "exponent x = int (halvings 1023 x)" using assms(1) by (simp add: exponent_def)
  have "nat (int (halvings 1023 x) + 1) = Suc (halvings 1023 x)" by simp
  with h show ?thesis unfolding e pow2_def by simp
qed

lemma exponent_fraction:
  assumes "1 / 2 ^ 1022 \<le> x" and "x < 1"
  shows "- 1022 \<le> exponent x \<and> exponent x < 0 \<and>
         pow2 (exponent x) \<le> x \<and> x < pow2 (exponent x + 1)"
proof -
  define d where "d = doublings 1022 x"
  have pos: "0 < x"
  proof -
    have "(0::real) < 1 / 2 ^ 1022" by simp
    with assms(1) show ?thesis by linarith
  qed
  have one: "1 \<le> x * 2 ^ 1022"
    using assms(1) by (simp add: field_simps)
  from doublings_bounds[OF pos assms(2) one, of 1022]
  have d: "d \<le> 1022" "0 < d" "1 \<le> x * 2 ^ d" "x * 2 ^ d < 2"
    by (simp_all add: d_def)
  have e: "exponent x = - int d" using assms(2) by (simp add: exponent_def d_def)
  have lower: "pow2 (- int d) \<le> x"
    using d(2,3) by (simp add: pow2_def field_simps)
  obtain j where j: "d = Suc j" using d(2) by (cases d) auto
  have upper: "x < pow2 (- int d + 1)"
  proof (cases j)
    case 0
    with j assms(2) show ?thesis by (simp add: pow2_def)
  next
    case (Suc i)
    with j have "nat (int d - 1) = j" by simp
    moreover have "x * 2 ^ j < 1" using d(4) j by simp
    ultimately show ?thesis using j Suc by (simp add: pow2_def field_simps)
  qed
  from d(1,2) lower upper show ?thesis unfolding e by simp
qed

lemma exponent_subnormal:
  assumes "0 < x" and "x < 1 / 2 ^ 1022"
  shows "exponent x = - 1022"
proof -
  have small: "x * 2 ^ 1022 < 1" using assms(2) by (simp add: field_simps)
  have "(1::real) / 2 ^ 1022 \<le> 1" by simp
  with assms(2) have "x < 1" by linarith
  with doublings_cap[OF assms(1) small] show ?thesis by (simp add: exponent_def)
qed

text \<open>
  Some doubles: one tenth; the two ties just above 1, which go to the neighbour with an
  even last bit; and the sum that is not three tenths.
\<close>

lemma to_double_examples:
  "to_double (1 / 10) = 3602879701896397 / 2 ^ 55"
  "to_double (1 + 1 / 2 ^ 53) = 1"
  "to_double (1 + 3 / 2 ^ 53) = 1 + 1 / 2 ^ 51"
  "to_double (- (7 / 50)) = - (5044031582654956 / 2 ^ 55)"
  "to_double (to_double (1 / 10) + to_double (2 / 10)) = 5404319552844596 / 2 ^ 54"
  by code_simp+

subsection \<open>Statistics and score\<close>

lemma keys_length_if_truthy_total: "\<exists>n. keys_length_if_truthy x = Some n"
  by (cases x) (simp_all add: keys_length_if_truthy_def object_keys_def)

lemma keys_length_if_truthy_nullish: "nullish x \<Longrightarrow> keys_length_if_truthy x = Some 0"
  by (cases x) (simp_all add: keys_length_if_truthy_def)

lemma keys_length_if_truthy_obj: "keys_length_if_truthy (JObj kvs) = Some (length kvs)"
  by (simp add: keys_length_if_truthy_def object_keys_def)

lemma keys_length_if_object_obj: "keys_length_if_object (JObj kvs) = Some (length kvs)"
  by (simp add: keys_length_if_object_def object_keys_def)

lemma get_prop_truthy: "truthy r \<Longrightarrow> \<exists>v. get_prop r k = Some v"
  by (cases r) simp_all

lemma get_prop_opt_prop: "get_prop r k = Some v \<Longrightarrow> opt_prop r k = v"
  by (simp add: opt_prop_def)

lemma getNetworkStats_truthy:
  assumes "truthy r"
  shows "\<exists>ps ssl http a b c.
           get_prop r ''port_scan'' = Some ps \<and>
           get_prop r ''ssl_security_findings'' = Some ssl \<and>
           get_prop r ''http_security_findings'' = Some http \<and>
           keys_length_if_truthy (opt_prop ps ''tcp'') = Some a \<and>
           keys_length_if_truthy ssl = Some b \<and>
           keys_length_if_truthy http = Some c \<and>
           getNetworkStats r = Some \<lparr>openPorts = a, sslIssues = b, httpIssues = c\<rparr>"
proof -
  obtain ps where ps: "get_prop r ''port_scan'' = Some ps"
    using assms get_prop_truthy by blast
  obtain ssl where ssl: "get_prop r ''ssl_security_findings'' = Some ssl"
    using assms get_prop_truthy by blast
  obtain http where http: "get_prop r ''http_security_findings'' = Some http"
    using assms get_prop_truthy by blast
  obtain a where a: "keys_length_if_truthy (opt_prop ps ''tcp'') = Some a"
    using keys_length_if_truthy_total by blast
  obtain b where b: "keys_length_if_truthy ssl = Some b"
    using keys_length_if_truthy_total by blast
  obtain c where c: "keys_length_if_truthy http = Some c"
    using keys_length_if_truthy_total by blast
  have "getNetworkStats r = Some \<lparr>openPorts = a, sslIssues = b, httpIssues = c\<rparr>"
    using assms ps ssl http a b c by (simp add: getNetworkStats_def)
  with ps ssl http a b c show ?thesis by blast
qed

lemma getNetworkStats_total: "\<exists>ns. getNetworkStats r = Some ns"
proof (cases "truthy r")
  case False
  then show ?thesis by (simp add: getNetworkStats_def)
next
  case True
  then show ?thesis using getNetworkStats_truthy by blast
qed


lemma security_score_eq:
  assumes "sslIssues ns < 2 ^ 32" and "httpIssues ns < 2 ^ 32" and "openPorts ns < 2 ^ 32"
  shows "security_score ns cs =
           max 0 (min 100 (math_round
             (if totalFiles cs > 0
              then to_double
                     (of_int (100 - 15 * int (sslIssues ns) - 10 * int (httpIssues ns)
                                - 5 * max 0 (int (openPorts ns) - 3))
                      - to_double (to_double (real (errorFiles cs) / real (totalFiles cs)) * 25))
              else of_int (100 - 15 * int (sslIssues ns) - 10 * int (httpIssues ns)
                             - 5 * max 0 (int (openPorts ns) - 3)))))"
  unfolding security_score_def Let_def network_part[OF assms]
  by (simp add: js_sub_def js_mul_def js_div_def)

lemma calculateSecurityScore_eq:
  assumes "getNetworkStats nr = Some ns"
  shows "calculateSecurityScore nr fr = Some (security_score ns (getCodeStats fr))"
  using assms by (simp add: calculateSecurityScore_def)

lemma math_round_of_int: "math_round (of_int n) = n"
  unfolding math_round_def by linarith

lemma score_example_double: "to_double (50 - to_double (to_double (1 / 5) * 25)) = 45"
  by code_simp

text \<open>
  C2, as amended. For counts below \<open>2 ^ 32\<close> (they are lengths of arrays), the score
  is the integer \<open>r\<close> nearest to a number \<open>x\<close>, a tie going up, clamped to
  the range from 0 to 100. When no file was reviewed, \<open>x\<close> is
  \<open>base = 100 - 15 * ssl - 10 * http - 5 * max 0 (ports - 3)\<close>, which the code
  computes exactly. Otherwise \<open>x\<close> is the double nearest to \<open>base\<close> minus the
  review term, and the review term is itself computed in doubles: the quotient of the
  failed by the reviewed files, then its product with 25. When no review has failed the
  score is \<open>base\<close> clamped. The score is always an integer between 0 and 100, and it
  is 45 for two SSL issues, one HTTP issue, five open ports and two failed reviews out of
  ten.
\<close>

theorem calculateSecurityScore_rounds_then_clamps:
  assumes "getNetworkStats nr = Some ns"
    and "sslIssues ns < 2 ^ 32" and "httpIssues ns < 2 ^ 32" and "openPorts ns < 2 ^ 32"
  shows "(\<exists>base x r.
            base = 100 - 15 * int (sslIssues ns) - 10 * int (httpIssues ns)
                     - 5 * max 0 (int (openPorts ns) - 3) \<and>
            x = (if totalFiles (getCodeStats fr) > 0
                 then to_double
                        (of_int base
                         - to_double
                             (to_double (real (errorFiles (getCodeStats fr))
                                           / real (totalFiles (getCodeStats fr))) * 25))
                 else of_int base) \<and>
            of_int r \<le> x + 1 / 2 \<and> x + 1 / 2 < of_int r + 1 \<and>
            calculateSecurityScore nr fr = Some (max 0 (min 100 r)) \<and>
            (totalFiles (getCodeStats fr) = 0 \<or> errorFiles (getCodeStats fr) = 0
               \<longrightarrow> calculateSecurityScore nr fr = Some (max 0 (min 100 base)))) \<and>
         (\<exists>n. calculateSecurityScore nr fr = Some n \<and> 0 \<le> n \<and> n \<le> 100) \<and>
         (sslIssues ns = 2 \<and> httpIssues ns = 1 \<and> openPorts ns = 5 \<and>
          totalFiles (getCodeStats fr) = 10 \<and> errorFiles (getCodeStats fr) = 2
            \<longrightarrow> calculateSecurityScore nr fr = Some 45)"
proof -
  let ?cs = "getCodeStats fr"
  let ?base = "100 - 15 * int (sslIssues ns) - 10 * int (httpIssues ns)
                 - 5 * max 0 (int (openPorts ns) - 3)"
  let ?x = "if totalFiles ?cs > 0
            then to_double
                   (of_int ?base
                    - to_double (to_double (real (errorFiles ?cs) / real (totalFiles ?cs)) * 25))
            else of_int ?base"
  have eq: "calculateSecurityScore nr fr = Some (max 0 (min 100 (math_round ?x)))"
    unfolding calculateSecurityScore_eq[OF assms(1)] security_score_eq[OF assms(2-4)] ..
  have r1: "of_int (math_round ?x) \<le> ?x + 1 / 2"
    unfolding math_round_def by (rule of_int_floor_le)
  have r2: "?x + 1 / 2 < of_int (math_round ?x) + 1"
    unfolding math_round_def by linarith
  have bb: "\<bar>?base\<bar> < 2 ^ 53"
    using assms(2-4) by (cases "3 \<le> int (openPorts ns)") (simp_all add: max_def abs_if)
  have zero: "totalFiles ?cs = 0 \<or> errorFiles ?cs = 0
                \<longrightarrow> calculateSecurityScore nr fr = Some (max 0 (min 100 ?base))"
  proof
    assume c: "totalFiles ?cs = 0 \<or> errorFiles ?cs = 0"
    have "?x = of_int ?base"
    proof (cases "totalFiles ?cs = 0")
      case True
      then show ?thesis by simp
    next
      case False
      with c have "errorFiles ?cs = 0" by simp
      then have "?x = to_double (of_int ?base)" using False by (simp add: to_double_def)
      with to_double_of_int[OF bb] show ?thesis by simp
    qed
    then have "math_round ?x = ?base" by (simp only: math_round_of_int)
    with eq show "calculateSecurityScore nr fr = Some (max 0 (min 100 ?base))" by simp
  qed
  have ex: "sslIssues ns = 2 \<and> httpIssues ns = 1 \<and> openPorts ns = 5 \<and>
            totalFiles ?cs = 10 \<and> errorFiles ?cs = 2
              \<longrightarrow> calculateSecurityScore nr fr = Some 45"
  proof
    assume a: "sslIssues ns = 2 \<and> httpIssues ns = 1 \<and> openPorts ns = 5 \<and>
               totalFiles ?cs = 10 \<and> errorFiles ?cs = 2"
    then have "?x = 45" by (simp add: score_example_double)
    then have "math_round ?x = 45" unfolding math_round_def by simp
    with eq show "calculateSecurityScore nr fr = Some 45" by simp
  qed
  have bounds: "\<exists>n. calculateSecurityScore nr fr = Some n \<and> 0 \<le> n \<and> n \<le> 100"
    unfolding eq by simp
  show ?thesis
  proof (intro conjI)
    show "\<exists>base x r.
            base = ?base \<and>
            x = (if totalFiles ?cs > 0
                 then to_double
                        (of_int base
                         - to_double
                             (to_double (real (errorFiles ?cs) / real (totalFiles ?cs)) * 25))
                 else of_int base) \<and>
            of_int r \<le> x + 1 / 2 \<and> x + 1 / 2 < of_int r + 1 \<and>
            calculateSecurityScore nr fr = Some (max 0 (min 100 r)) \<and>
            (totalFiles ?cs = 0 \<or> errorFiles ?cs = 0
               \<longrightarrow> calculateSecurityScore nr fr = Some (max 0 (min 100 base)))"
      by (rule exI[of _ "?base"], rule exI[of _ "?x"], rule exI[of _ "math_round ?x"])
        (intro conjI refl r1 r2 eq zero)
  qed (rule bounds ex)+
qed

lemma score_net_stats:
  "getNetworkStats score_net = Some \<lparr>openPorts = 5, sslIssues = 2, httpIssues = 1\<rparr>"
  by (simp add: score_net_def getNetworkStats_def keys_length_if_truthy_def opt_prop_def
      object_keys_def)

lemma score_files_stats:
  "getCodeStats (Some score_files) = \<lparr>totalFiles = 10, completedFiles = 8, errorFiles = 2\<rparr>"
  by (simp add: score_files_def getCodeStats_def done_record_def failed_record_def)

lemma empty_net_stats:
  "getNetworkStats (JObj []) = Some \<lparr>openPorts = 0, sslIssues = 0, httpIssues = 0\<rparr>"
  by (simp add: getNetworkStats_def keys_length_if_truthy_def opt_prop_def)

lemma thirds_files_stats:
  "getCodeStats (Some thirds_files) = \<lparr>totalFiles = 3, completedFiles = 2, errorFiles = 1\<rparr>"
  by (simp add: thirds_files_def getCodeStats_def done_record_def failed_record_def)

lemma halves_files_stats:
  "getCodeStats (Some halves_files) = \<lparr>totalFiles = 2, completedFiles = 1, errorFiles = 1\<rparr>"
  by (simp add: halves_files_def getCodeStats_def done_record_def failed_record_def)


lemma findings_only_net_stats:
  "getNetworkStats findings_only_net = Some \<lparr>openPorts = 0, sslIssues = 5, httpIssues = 2\<rparr>"
  by (simp add: findings_only_net_def getNetworkStats_def keys_length_if_truthy_def opt_prop_def
      object_keys_def)

lemma fifty_files_stats:
  "getCodeStats (Some fifty_files) = \<lparr>totalFiles = 50, completedFiles = 43, errorFiles = 7\<rparr>"
  by code_simp

lemma seven_of_fifty_score:
  "security_score \<lparr>openPorts = 0, sslIssues = 5, httpIssues = 2\<rparr>
     \<lparr>totalFiles = 50, completedFiles = 43, errorFiles = 7\<rparr> = 1"
  by code_simp

lemma one_of_three_score:
  "security_score \<lparr>openPorts = 0, sslIssues = 0, httpIssues = 0\<rparr>
     \<lparr>totalFiles = 3, completedFiles = 2, errorFiles = 1\<rparr> = 92"
  by code_simp

lemma one_of_two_score:
  "security_score \<lparr>openPorts = 0, sslIssues = 0, httpIssues = 0\<rparr>
     \<lparr>totalFiles = 2, completedFiles = 1, errorFiles = 1\<rparr> = 88"
  by code_simp

lemma one_of_three_double:
  "to_double (100 - to_double (to_double (1 / 3) * 25)) = 6450468216285867 / 2 ^ 46"
  by code_simp

lemma seven_of_fifty_double:
  "to_double (5 - to_double (to_double (7 / 50) * 25)) = 3377699720527871 / 2 ^ 51"
  by code_simp

text \<open>
  The example of the specification, and three runs in which the rounding shows. Seven
  failed reviews out of fifty with five SSL issues and two HTTP issues: the review term
  is \<open>3.5000000000000004\<close> in doubles, \<open>x\<close> is just below \<open>1.5\<close> and the
  score is 1, where exact arithmetic would give \<open>1.5\<close> and 2. One failed review out
  of two: \<open>x\<close> is \<open>87.5\<close>, a tie, and the score is 88. One out of three: 92.
\<close>

theorem calculateSecurityScore_rounds_then_clamps_witness:
  "getNetworkStats score_net = Some \<lparr>openPorts = 5, sslIssues = 2, httpIssues = 1\<rparr> \<and>
   getCodeStats (Some score_files) = \<lparr>totalFiles = 10, completedFiles = 8, errorFiles = 2\<rparr> \<and>
   calculateSecurityScore score_net (Some score_files) = Some 45 \<and>
   getNetworkStats findings_only_net = Some \<lparr>openPorts = 0, sslIssues = 5, httpIssues = 2\<rparr> \<and>
   getCodeStats (Some fifty_files) = \<lparr>totalFiles = 50, completedFiles = 43, errorFiles = 7\<rparr> \<and>
   to_double (5 - to_double (to_double (7 / 50) * 25)) = 3377699720527871 / 2 ^ 51 \<and>
   calculateSecurityScore findings_only_net (Some fifty_files) = Some 1 \<and>
   calculateSecurityScore (JObj []) (Some halves_files) = Some 88 \<and>
   calculateSecurityScore (JObj []) (Some thirds_files) = Some 92 \<and>
   calculateSecurityScore findings_only_net None = Some 5"
proof -
  have b: "sslIssues \<lparr>openPorts = 5, sslIssues = 2, httpIssues = 1\<rparr> < 2 ^ 32"
    "httpIssues \<lparr>openPorts = 5, sslIssues = 2, httpIssues = 1\<rparr> < 2 ^ 32"
    "openPorts \<lparr>openPorts = 5, sslIssues = 2, httpIssues = 1\<rparr> < 2 ^ 32"
    by simp_all
  from calculateSecurityScore_rounds_then_clamps[OF score_net_stats b, of "Some score_files"]
  have "calculateSecurityScore score_net (Some score_files) = Some 45"
    by (simp add: score_files_stats)
  moreover have c: "sslIssues \<lparr>openPorts = 0, sslIssues = 5, httpIssues = 2\<rparr> < 2 ^ 32"
    "httpIssues \<lparr>openPorts = 0, sslIssues = 5, httpIssues = 2\<rparr> < 2 ^ 32"
    "openPorts \<lparr>openPorts = 0, sslIssues = 5, httpIssues = 2\<rparr> < 2 ^ 32"
    by simp_all
  from calculateSecurityScore_rounds_then_clamps[OF findings_only_net_stats c, of None]
  have "calculateSecurityScore findings_only_net None = Some 5"
    by (auto simp: getCodeStats_def)
  moreover have "calculateSecurityScore findings_only_net (Some fifty_files) = Some 1"
    unfolding calculateSecurityScore_eq[OF findings_only_net_stats] fifty_files_stats
      seven_of_fifty_score ..
  moreover have "calculateSecurityScore (JObj []) (Some halves_files) = Some 88"
    unfolding calculateSecurityScore_eq[OF empty_net_stats] halves_files_stats
      one_of_two_score ..
  moreover have "calculateSecurityScore (JObj []) (Some thirds_files) = Some 92"
    unfolding calculateSecurityScore_eq[OF empty_net_stats] thirds_files_stats
      one_of_three_score ..
  ultimately show ?thesis
    by (simp add: score_net_stats score_files_stats findings_only_net_stats fifty_files_stats
        seven_of_fifty_double)
qed

text \<open>
  C2 as the specification states it fails: with no network findings and one failed review
  out of three the unrounded expression is 275/3 (in doubles,
  \<open>91.66666666666667\<close>), which is not an integer, while the code answers 92.
\<close>

theorem score_without_rounding_counterexample:
  "getNetworkStats (JObj []) = Some \<lparr>openPorts = 0, sslIssues = 0, httpIssues = 0\<rparr> \<and>
   getCodeStats (Some thirds_files) = \<lparr>totalFiles = 3, completedFiles = 2, errorFiles = 1\<rparr> \<and>
   calculateSecurityScore (JObj []) (Some thirds_files) = Some 92 \<and>
   spec_score 0 0 0 3 1 = 275 / 3 \<and>
   real_of_int 92 \<noteq> spec_score 0 0 0 3 1 \<and>
   to_double (100 - to_double (to_double (1 / 3) * 25)) = 6450468216285867 / 2 ^ 46 \<and>
   real_of_int 92 \<noteq> to_double (100 - to_double (to_double (1 / 3) * 25))"
proof -
  have "calculateSecurityScore (JObj []) (Some thirds_files) = Some 92"
    unfolding calculateSecurityScore_eq[OF empty_net_stats] thirds_files_stats
      one_of_three_score ..
  then show ?thesis
    by (simp add: empty_net_stats thirds_files_stats one_of_three_double spec_score_def)
qed

subsection \<open>Issue counts\<close>

lemma keys_length_if_object_total: "\<exists>n. keys_length_if_object x = Some n"
  by (cases x) (simp_all add: keys_length_if_object_def object_keys_def)

lemma getSecurityFindingsCount_total:
  assumes "\<not> nullish results"
  shows "\<exists>ssl http a b.
           get_prop results ''ssl_security_findings'' = Some ssl \<and>
           get_prop results ''http_security_findings'' = Some http \<and>
           keys_length_if_object ssl = Some a \<and>
           keys_length_if_object http = Some b \<and>
           getSecurityFindingsCount results = Some \<lparr>sslCount = a, httpCount = b\<rparr>"
proof -
  obtain ssl where ssl: "get_prop results ''ssl_security_findings'' = Some ssl"
    using assms by (cases results) simp_all
  obtain http where http: "get_prop results ''http_security_findings'' = Some http"
    using assms by (cases results) simp_all
  obtain a where a: "keys_length_if_object ssl = Some a"
    using keys_length_if_object_total by blast
  obtain b where b: "keys_length_if_object http = Some b"
    using keys_length_if_object_total by blast
  have "getSecurityFindingsCount results = Some \<lparr>sslCount = a, httpCount = b\<rparr>"
    using ssl http a b by (simp add: getSecurityFindingsCount_def)
  with ssl http a b show ?thesis by blast
qed

lemma getNetworkStats_ssl_map:
  assumes "getNetworkStats results = Some ns"
    and "get_prop results ''ssl_security_findings'' = Some (JObj ssl)"
  shows "sslIssues ns = length ssl"
proof -
  have "truthy results" using assms(2) by (cases results) simp_all
  from getNetworkStats_truthy[OF this] assms show ?thesis
    by (auto simp: keys_length_if_truthy_obj)
qed

lemma getNetworkStats_http_map:
  assumes "getNetworkStats results = Some ns"
    and "get_prop results ''http_security_findings'' = Some (JObj http)"
  shows "httpIssues ns = length http"
proof -
  have "truthy results" using assms(2) by (cases results) simp_all
  from getNetworkStats_truthy[OF this] assms show ?thesis
    by (auto simp: keys_length_if_truthy_obj)
qed

text \<open>
  C10. For every scan result, the SSL and HTTP issue counts that enter the security score
  and the summaries of the report, and those the dashboard shows, are the numbers of ports
  (keys) of the SSL and HTTP findings maps; what a port carries does not enter, so a port
  with many findings counts once.
\<close>

theorem issue_counts_are_port_counts:
  assumes "\<not> nullish results"
  shows "\<exists>ns fc.
           getNetworkStats results = Some ns \<and>
           getSecurityFindingsCount results = Some fc \<and>
           calculateSecurityScore results fr = Some (security_score ns (getCodeStats fr)) \<and>
           (\<forall>ssl. get_prop results ''ssl_security_findings'' = Some (JObj ssl) \<and>
                  distinct (map fst ssl) \<longrightarrow>
                    sslIssues ns = card (fst ` set ssl) \<and> sslCount fc = card (fst ` set ssl)) \<and>
           (\<forall>http. get_prop results ''http_security_findings'' = Some (JObj http) \<and>
                  distinct (map fst http) \<longrightarrow>
                    httpIssues ns = card (fst ` set http) \<and> httpCount fc = card (fst ` set http))"
proof -
  obtain ns where ns: "getNetworkStats results = Some ns"
    using getNetworkStats_total by blast
  from getSecurityFindingsCount_total[OF assms] obtain sv hv a b
    where sv: "get_prop results ''ssl_security_findings'' = Some sv"
      and hv: "get_prop results ''http_security_findings'' = Some hv"
      and a: "keys_length_if_object sv = Some a"
      and b: "keys_length_if_object hv = Some b"
      and fc: "getSecurityFindingsCount results = Some \<lparr>sslCount = a, httpCount = b\<rparr>"
    by blast
  have ssl_part: "sslIssues ns = card (fst ` set ssl) \<and> a = card (fst ` set ssl)"
    if "get_prop results ''ssl_security_findings'' = Some (JObj ssl) \<and> distinct (map fst ssl)"
    for ssl
  proof -
    from that have g: "get_prop results ''ssl_security_findings'' = Some (JObj ssl)"
      and d: "distinct (map fst ssl)" by simp_all
    have c: "card (fst ` set ssl) = length ssl"
      using d distinct_card[of "map fst ssl"] by simp
    from g sv a have "a = length ssl" by (simp add: keys_length_if_object_obj)
    with getNetworkStats_ssl_map[OF ns g] c show ?thesis by simp
  qed
  have http_part: "httpIssues ns = card (fst ` set http) \<and> b = card (fst ` set http)"
    if "get_prop results ''http_security_findings'' = Some (JObj http) \<and> distinct (map fst http)"
    for http
  proof -
    from that have g: "get_prop results ''http_security_findings'' = Some (JObj http)"
      and d: "distinct (map fst http)" by simp_all
    have c: "card (fst ` set http) = length http"
      using d distinct_card[of "map fst http"] by simp
    from g hv b have "b = length http" by (simp add: keys_length_if_object_obj)
    with getNetworkStats_http_map[OF ns g] c show ?thesis by simp
  qed
  from ns fc calculateSecurityScore_eq[OF ns, of fr] ssl_part http_part
  show ?thesis by simp
qed

lemma one_port_net_ssl:
  "get_prop one_port_net ''ssl_security_findings'' =
     Some (JObj [(''443'', JObj [(''security_issues'',
             JArr [JStr ''TLSv1.0 enabled'', JStr ''weak cipher'', JStr ''expired certificate''])])])"
  by (simp add: one_port_net_def)

lemma one_port_net_http:
  "get_prop one_port_net ''http_security_findings'' =
     Some (JObj [(''443'', JObj [(''security_issues'',
             JArr [JStr ''missing HSTS'', JStr ''TRACE enabled''])])])"
  by (simp add: one_port_net_def)

lemma one_port_net_stats:
  "getNetworkStats one_port_net = Some \<lparr>openPorts = 0, sslIssues = 1, httpIssues = 1\<rparr>"
  by (simp add: one_port_net_def getNetworkStats_def keys_length_if_truthy_def opt_prop_def
      object_keys_def)

theorem issue_counts_are_port_counts_witness:
  "getNetworkStats one_port_net = Some \<lparr>openPorts = 0, sslIssues = 1, httpIssues = 1\<rparr> \<and>
   getSecurityFindingsCount one_port_net = Some \<lparr>sslCount = 1, httpCount = 1\<rparr> \<and>
   calculateSecurityScore one_port_net None = Some 75"
proof -
  have n: "\<not> nullish one_port_net" by (simp add: one_port_net_def)
  from issue_counts_are_port_counts[OF n, of None] obtain ns fc
    where ns: "getNetworkStats one_port_net = Some ns"
      and fc: "getSecurityFindingsCount one_port_net = Some fc"
      and ssl: "\<forall>ssl. get_prop one_port_net ''ssl_security_findings'' = Some (JObj ssl) \<and>
                  distinct (map fst ssl) \<longrightarrow>
                    sslIssues ns = card (fst ` set ssl) \<and> sslCount fc = card (fst ` set ssl)"
      and http: "\<forall>http. get_prop one_port_net ''http_security_findings'' = Some (JObj http) \<and>
                  distinct (map fst http) \<longrightarrow>
                    httpIssues ns = card (fst ` set http) \<and> httpCount fc = card (fst ` set http)"
    by blast
  from ssl one_port_net_ssl have s: "sslIssues ns = 1" "sslCount fc = 1" by auto
  from http one_port_net_http have h: "httpIssues ns = 1" "httpCount fc = 1" by auto
  from ns one_port_net_stats fc s h
  have "getSecurityFindingsCount one_port_net = Some \<lparr>sslCount = 1, httpCount = 1\<rparr>"
    by (cases fc) simp
  moreover have "security_score \<lparr>openPorts = 0, sslIssues = 1, httpIssues = 1\<rparr>
                   \<lparr>totalFiles = 0, completedFiles = 0, errorFiles = 0\<rparr> = 75"
    by code_simp
  ultimately show ?thesis
    by (simp add: one_port_net_stats calculateSecurityScore_eq[OF one_port_net_stats]
        getCodeStats_def)
qed

subsection \<open>Absent sections\<close>

lemma lower_char_examples:
  "map lower_char ''High'' = ''high''"
  "map lower_char [CHR 0xC9, CHR 0xD7, CHR 0xDE, CHR 0xDF] = [CHR 0xE9, CHR 0xD7, CHR 0xFE, CHR 0xDF]"
  by code_simp+

lemma getNetworkStats_nullish_parts:
  assumes "getNetworkStats results = Some ns"
  shows "(nullish (opt_prop (opt_prop results ''port_scan'') ''tcp'') \<longrightarrow> openPorts ns = 0) \<and>
         (nullish (opt_prop results ''ssl_security_findings'') \<longrightarrow> sslIssues ns = 0) \<and>
         (nullish (opt_prop results ''http_security_findings'') \<longrightarrow> httpIssues ns = 0)"
proof (cases "truthy results")
  case False
  with assms show ?thesis by (auto simp: getNetworkStats_def)
next
  case True
  from getNetworkStats_truthy[OF True] assms show ?thesis
    by (auto simp: get_prop_opt_prop keys_length_if_truthy_nullish)
qed

lemma extractFindings_not_array:
  assumes "\<not> nullish results" and "\<not> is_array (opt_prop results ''vulnerabilities'')"
  shows "extractFindingsFromResults results = Some empty_findings"
proof -
  obtain v where v: "get_prop results ''vulnerabilities'' = Some v"
    using assms(1) by (cases results) simp_all
  then have "\<not> is_array v" using assms(2) by (simp add: opt_prop_def)
  then show ?thesis using v
    by (cases v) (simp_all add: extractFindingsFromResults_def)
qed

text \<open>
  C7. The statistics of a scan result are computed without an error whatever the payload
  is, and a port table, an SSL findings map or an HTTP findings map that is missing counts
  as zero; a review state that is \<^verbatim>\<open>null\<close> or empty gives zero counts; a contract
  analysis whose \<^verbatim>\<open>vulnerabilities\<close> field is missing or is not an array gives
  empty severity buckets.
\<close>

theorem absent_sections_are_no_findings:
  "(\<exists>ns. getNetworkStats results = Some ns \<and>
      (nullish (opt_prop (opt_prop results ''port_scan'') ''tcp'') \<longrightarrow> openPorts ns = 0) \<and>
      (nullish (opt_prop results ''ssl_security_findings'') \<longrightarrow> sslIssues ns = 0) \<and>
      (nullish (opt_prop results ''http_security_findings'') \<longrightarrow> httpIssues ns = 0)) \<and>
   getCodeStats None = \<lparr>totalFiles = 0, completedFiles = 0, errorFiles = 0\<rparr> \<and>
   getCodeStats (Some []) = \<lparr>totalFiles = 0, completedFiles = 0, errorFiles = 0\<rparr> \<and>
   (\<not> nullish contract \<and> \<not> is_array (opt_prop contract ''vulnerabilities'')
      \<longrightarrow> extractFindingsFromResults contract = Some empty_findings)"
proof (intro conjI impI)
  obtain ns where ns: "getNetworkStats results = Some ns"
    using getNetworkStats_total by blast
  with getNetworkStats_nullish_parts[OF ns]
  show "\<exists>ns. getNetworkStats results = Some ns \<and>
      (nullish (opt_prop (opt_prop results ''port_scan'') ''tcp'') \<longrightarrow> openPorts ns = 0) \<and>
      (nullish (opt_prop results ''ssl_security_findings'') \<longrightarrow> sslIssues ns = 0) \<and>
      (nullish (opt_prop results ''http_security_findings'') \<longrightarrow> httpIssues ns = 0)"
    by blast
  show "getCodeStats None = \<lparr>totalFiles = 0, completedFiles = 0, errorFiles = 0\<rparr>"
    by (simp add: getCodeStats_def)
  show "getCodeStats (Some []) = \<lparr>totalFiles = 0, completedFiles = 0, errorFiles = 0\<rparr>"
    by (simp add: getCodeStats_def)
  assume "\<not> nullish contract \<and> \<not> is_array (opt_prop contract ''vulnerabilities'')"
  then show "extractFindingsFromResults contract = Some empty_findings"
    using extractFindings_not_array by blast
qed

theorem absent_sections_are_no_findings_witness:
  "getNetworkStats (JObj [(''errors'', JArr [])]) =
     Some \<lparr>openPorts = 0, sslIssues = 0, httpIssues = 0\<rparr> \<and>
   extractFindingsFromResults odd_contract = Some empty_findings \<and>
   extractFindingsFromResults (JObj [(''status'', JStr ''success'')]) = Some empty_findings"
  using absent_sections_are_no_findings[of "JObj [(''errors'', JArr [])]" odd_contract]
    absent_sections_are_no_findings[of "JObj [(''errors'', JArr [])]" "JObj [(''status'', JStr ''success'')]"]
  by (auto simp: opt_prop_def odd_contract_def)

subsection \<open>Records written by a review\<close>

lemma record_ok_failed_review: "record_ok (failed_review msg)"
  by (simp add: record_ok_def failed_review_def)


lemma record_ok_completed:
  "record_ok \<lparr>status = COMPLETED,
              result = (if truthy v then v else JStr ''No response received from server''),
              error = JNull\<rparr>"
  by (cases v) (simp_all add: record_ok_def)

lemma record_ok_review_outcome: "record_ok (review_outcome r)"
  by (simp add: review_outcome_def record_ok_failed_review record_ok_completed
      split: http_result.splits sum.splits option.splits)


lemma all_records_ok_update:
  "all_records_ok fr \<Longrightarrow> record_ok r \<Longrightarrow> all_records_ok (AList.update k r fr)"
  by (induction fr) (auto simp: all_records_ok_def)

lemma all_records_ok_mark_processing:
  assumes "all_records_ok fr"
  shows "all_records_ok (mark_processing filename fr)"
proof -
  have "record_ok (case map_of fr filename of
          None \<Rightarrow> \<lparr>status = PROCESSING, result = JUndefined, error = JUndefined\<rparr>
        | Some r \<Rightarrow> r\<lparr>status := PROCESSING\<rparr>)"
    by (simp add: record_ok_def split: option.splits)
  then show ?thesis
    unfolding mark_processing_def using assms by (rule all_records_ok_update[rotated])
qed

lemma all_records_ok_initialResults: "all_records_ok (initialResults textFiles)"
  by (induction textFiles) (auto simp: all_records_ok_def initialResults_def record_ok_def)

lemma states_append: "states (xs @ ys) = states xs @ states ys"
  by (induction xs rule: states.induct) simp_all



lemma progress_reports_append:
  "progress_reports (xs @ ys) = progress_reports xs @ progress_reports ys"
  by (induction xs rule: progress_reports.induct) simp_all


lemma review_loop_records_ok:
  "all_records_ok fr \<Longrightarrow> review_loop rv n c zs fr = (fr', evs) \<Longrightarrow>
     all_records_ok fr' \<and> (\<forall>st \<in> set (states evs). all_records_ok st)"
proof (induction zs arbitrary: c fr fr' evs)
  case Nil
  then show ?case by simp
next
  case (Cons z zs)
  obtain f src where z: "z = (f, src)" by (cases z)
  let ?p1 = "mark_processing f fr"
  let ?p2 = "AList.update f (review_outcome (rv f src)) ?p1"
  obtain fr2 evs2 where rest: "review_loop rv n (Suc c) zs ?p2 = (fr2, evs2)"
    by (cases "review_loop rv n (Suc c) zs ?p2")
  have p1: "all_records_ok ?p1"
    using Cons.prems(1) by (rule all_records_ok_mark_processing)
  have p2: "all_records_ok ?p2"
    using p1 record_ok_review_outcome by (rule all_records_ok_update)
  from Cons.IH[OF p2 rest]
  have ih: "all_records_ok fr2" "\<forall>st \<in> set (states evs2). all_records_ok st" by simp_all
  from Cons.prems(2) z rest
  have "fr' = fr2"
    and "evs = [FileResultsSet ?p1, ReviewRequest f src, FileResultsSet ?p2]
               @ CodeProgressSet (js_mul (js_div (real (Suc c)) (real n)) 100) # evs2"
    by (simp_all add: reviewSingleFile_def Let_def)
  with ih p1 p2 show ?case by (simp add: states_append)
qed

text \<open>
  C9. Start a review run from a state in which every record satisfies the lifecycle
  invariant (the state an upload leaves is one). Then every record the run writes, and
  every record of every state the run goes through and of the state it ends in, satisfies
  it: a completed record holds a non-null result and a null error, a failed record
  holds a non-empty error message and a null result.
\<close>

theorem review_records_keep_invariant:
  assumes "handleCodeReview rv zipFiles fr = (fr', evs)" and "all_records_ok fr"
  shows "record_ok (review_outcome (rv filename sourceCode)) \<and>
         all_records_ok fr' \<and>
         (\<forall>st \<in> set (states evs). all_records_ok st) \<and>
         all_records_ok (initialResults zipFiles)"
proof (cases "zipFiles = []")
  case True
  with assms show ?thesis
    by (simp add: handleCodeReview_def record_ok_review_outcome all_records_ok_initialResults)
next
  case False
  obtain fr2 evs2 where loop: "review_loop rv (length (map fst zipFiles)) 0 zipFiles fr = (fr2, evs2)"
    by (cases "review_loop rv (length (map fst zipFiles)) 0 zipFiles fr")
  from assms(1) False loop
  have eq: "fr' = fr2" "evs = ProcessingSet True # CodeProgressSet 0 # evs2 @ [ProcessingSet False]"
    by (simp_all add: handleCodeReview_def)
  from review_loop_records_ok[OF assms(2) loop] eq
  show ?thesis
    by (simp add: states_append record_ok_review_outcome all_records_ok_initialResults)
qed

lemma show_nat_500: "show_nat 500 = ''500''"
  by code_simp

lemma http_500:
  "http_error_message 500 ''Internal Server Error'' = ''HTTP 500: Internal Server Error''"
  by (simp add: http_error_message_def show_nat_500)

lemma batch_run:
  "fst (handleCodeReview batch_service batch_files (initialResults batch_files)) =
     [(''app.js'', \<lparr>status = COMPLETED, result = JStr ''Looks fine.'', error = JNull\<rparr>),
      (''db.py'', \<lparr>status = ERROR, result = JNull,
                  error = JStr ''HTTP 500: Internal Server Error''\<rparr>),
      (''conf.ini'', \<lparr>status = ERROR, result = JNull, error = JStr ''Failed to fetch''\<rparr>)]"
  by (simp add: handleCodeReview_def batch_files_def batch_service_def initialResults_def
      reviewSingleFile_def mark_processing_def review_outcome_def failed_review_def http_500
      Let_def)

theorem review_records_keep_invariant_witness:
  "all_records_ok (initialResults batch_files) \<and>
   record_ok (review_outcome (batch_service ''db.py'' ''import os'')) \<and>
   all_records_ok
     [(''app.js'', \<lparr>status = COMPLETED, result = JStr ''Looks fine.'', error = JNull\<rparr>),
      (''db.py'', \<lparr>status = ERROR, result = JNull,
                  error = JStr ''HTTP 500: Internal Server Error''\<rparr>),
      (''conf.ini'', \<lparr>status = ERROR, result = JNull, error = JStr ''Failed to fetch''\<rparr>)] \<and>
   list_all all_records_ok
     (states (snd (handleCodeReview batch_service batch_files (initialResults batch_files))))"
  using review_records_keep_invariant[where rv = batch_service and zipFiles = batch_files
      and fr = "initialResults batch_files" and filename = "''db.py''"
      and sourceCode = "''import os''",
      OF prod.collapse[symmetric] all_records_ok_initialResults]
  by (simp add: batch_run list_all_iff)

subsection \<open>The batch as a whole\<close>















subsection \<open>Vulnerability lookups\<close>

lemma lookup_entry_None: "lookup_entry r f = None \<longleftrightarrow> \<not> settles r"
  by (cases r) (auto split: sum.splits)

lemma settles_entry: "settles r \<Longrightarrow> \<exists>e. lookup_entry r f = Some e"
  using lookup_entry_None[of r f] by auto

lemma loop_step_fst:
  "product f \<noteq> [] \<Longrightarrow> lookup_entry (fst (srv n)) f = Some e \<Longrightarrow>
     fst (fetchCveData_loop srv n (f # fs) res) =
       fst (fetchCveData_loop srv (Suc n) fs (AList.update (product f) e res))"
  by (simp split: prod.splits)

lemma loop_step_snd:
  "product f \<noteq> [] \<Longrightarrow> lookup_entry (fst (srv n)) f = Some e \<Longrightarrow>
     snd (fetchCveData_loop srv n (f # fs) res) =
       Lookup (product f) (version f) # Settled (snd (srv n)) # Sleep 1000 #
       snd (fetchCveData_loop srv (Suc n) fs (AList.update (product f) e res))"
  by (simp split: prod.splits)

lemma loop_spaced: "spaced 1000 (snd (fetchCveData_loop srv n fs res))"
proof (induction fs arbitrary: n res)
  case Nil
  show ?case by simp
next
  case (Cons f fs)
  show ?case
  proof (cases "product f = []")
    case True
    then show ?thesis by (simp add: Cons.IH)
  next
    case False
    show ?thesis
    proof (cases "lookup_entry (fst (srv n)) f")
      case None
      with False show ?thesis by simp
    next
      case (Some e)
      show ?thesis
        unfolding loop_step_snd[where srv = srv and n = n, OF False Some] by (simp add: Cons.IH)
    qed
  qed
qed

lemma loop_elapsed:
  "\<forall>f \<in> set fs. product f \<noteq> [] \<Longrightarrow> \<forall>k < length fs. settles (fst (srv (n + k))) \<Longrightarrow>
     1000 * length fs \<le> elapsed (snd (fetchCveData_loop srv n fs res))"
proof (induction fs arbitrary: n res)
  case Nil
  show ?case by simp
next
  case (Cons f fs)
  from Cons.prems(1) have ne: "product f \<noteq> []" and rest: "\<forall>g \<in> set fs. product g \<noteq> []"
    by simp_all
  from Cons.prems(2) have "settles (fst (srv n))" by force
  then obtain e where e: "lookup_entry (fst (srv n)) f = Some e"
    using settles_entry by blast
  have "\<forall>k < length fs. settles (fst (srv (Suc n + k)))"
    using Cons.prems(2) by force
  from Cons.IH[OF rest this]
  have "1000 * length fs
          \<le> elapsed (snd (fetchCveData_loop srv (Suc n) fs (AList.update (product f) e res)))" .
  then show ?case unfolding loop_step_snd[where srv = srv and n = n, OF ne e] by simp
qed

lemma loop_lookups:
  "\<forall>f \<in> set fs. product f \<noteq> [] \<Longrightarrow> \<forall>k < length fs. settles (fst (srv (n + k))) \<Longrightarrow>
     lookups (snd (fetchCveData_loop srv n fs res)) = map (\<lambda>f. (product f, version f)) fs"
proof (induction fs arbitrary: n res)
  case Nil
  show ?case by simp
next
  case (Cons f fs)
  from Cons.prems(1) have ne: "product f \<noteq> []" and rest: "\<forall>g \<in> set fs. product g \<noteq> []"
    by simp_all
  from Cons.prems(2) have "settles (fst (srv n))" by force
  then obtain e where e: "lookup_entry (fst (srv n)) f = Some e"
    using settles_entry by blast
  have "\<forall>k < length fs. settles (fst (srv (Suc n + k)))"
    using Cons.prems(2) by force
  from Cons.IH[OF rest this]
  show ?case unfolding loop_step_snd[where srv = srv and n = n, OF ne e] by simp
qed

lemma loop_other_product:
  "\<forall>f \<in> set fs. product f \<noteq> p \<Longrightarrow>
     map_of (fst (fetchCveData_loop srv n fs res)) p = map_of res p"
proof (induction fs arbitrary: n res)
  case Nil
  show ?case by simp
next
  case (Cons f fs)
  from Cons.prems have ne: "product f \<noteq> p" and rest: "\<forall>g \<in> set fs. product g \<noteq> p"
    by simp_all
  show ?case
  proof (cases "product f = []")
    case True
    then show ?thesis by (simp add: Cons.IH[OF rest])
  next
    case False
    show ?thesis
    proof (cases "lookup_entry (fst (srv n)) f")
      case None
      with False show ?thesis by simp
    next
      case (Some e)
      show ?thesis
        unfolding loop_step_fst[where srv = srv and n = n, OF False Some]
        using ne by (auto simp: Cons.IH[OF rest] update_conv')
    qed
  qed
qed

lemma loop_last_wins:
  "\<forall>f \<in> set fs. product f \<noteq> [] \<Longrightarrow> \<forall>k < length fs. settles (fst (srv (n + k))) \<Longrightarrow>
   i < length fs \<Longrightarrow> \<forall>j. i < j \<and> j < length fs \<longrightarrow> product (fs ! j) \<noteq> product (fs ! i) \<Longrightarrow>
     map_of (fst (fetchCveData_loop srv n fs res)) (product (fs ! i))
       = lookup_entry (fst (srv (n + i))) (fs ! i)"
proof (induction fs arbitrary: n res i)
  case Nil
  then show ?case by simp
next
  case (Cons f fs)
  from Cons.prems(1) have ne: "product f \<noteq> []" and rest: "\<forall>g \<in> set fs. product g \<noteq> []"
    by simp_all
  from Cons.prems(2) have "settles (fst (srv n))" by force
  then obtain e where e: "lookup_entry (fst (srv n)) f = Some e"
    using settles_entry by blast
  have shifted: "\<forall>k < length fs. settles (fst (srv (Suc n + k)))"
    using Cons.prems(2) by force
  show ?case
  proof (cases i)
    case 0
    have "\<forall>g \<in> set fs. product g \<noteq> product f"
    proof
      fix g assume "g \<in> set fs"
      then obtain j where j: "j < length fs" "fs ! j = g" by (auto simp: in_set_conv_nth)
      from Cons.prems(4)[rule_format, of "Suc j"] 0 j show "product g \<noteq> product f" by simp
    qed
    from loop_other_product[OF this]
    show ?thesis unfolding loop_step_fst[where srv = srv and n = n, OF ne e] by (simp add: 0 update_conv' e)
  next
    case (Suc i')
    from Cons.prems(3) Suc have i': "i' < length fs" by simp
    have last: "\<forall>j. i' < j \<and> j < length fs \<longrightarrow> product (fs ! j) \<noteq> product (fs ! i')"
    proof (intro allI impI)
      fix j assume "i' < j \<and> j < length fs"
      with Cons.prems(4)[rule_format, of "Suc j"] Suc
      show "product (fs ! j) \<noteq> product (fs ! i')" by simp
    qed
    from Cons.IH[OF rest shifted i' last]
    show ?thesis unfolding loop_step_fst[where srv = srv and n = n, OF ne e] by (simp add: Suc)
  qed
qed

subsection \<open>Fingerprints of a port table\<close>

lemma product_of_entry_cases:
  assumes "product_of_entry prt info = Some fs"
  shows "(entry_product info = [] \<and> fs = []) \<or>
         (entry_product info \<noteq> [] \<and>
          (\<exists>f. fs = [f] \<and> port f = prt \<and> product f = entry_product info))"
proof -
  from assms obtain p where p: "get_prop info ''product'' = Some p"
    by (auto simp: product_of_entry_def split: Option.bind_splits)
  show ?thesis
  proof (cases "truthy p")
    case False
    then have "entry_product info = []"
      using p by (cases p) (simp_all add: entry_product_def trim_def)
    with assms p False show ?thesis by (simp add: product_of_entry_def)
  next
    case True
    with assms p obtain s where s: "p = JStr s"
      by (cases p) (auto simp: product_of_entry_def)
    then have ep: "entry_product info = trim s" using p by (simp add: entry_product_def)
    from assms p True s ep show ?thesis
      by (auto simp: product_of_entry_def split: Option.bind_splits if_splits)
  qed
qed

lemma collect_products_names:
  "collect_products es = Some fs \<Longrightarrow>
     map product fs = filter (\<lambda>p. p \<noteq> []) (map (\<lambda>(prt, info). entry_product info) es)"
proof (induction es arbitrary: fs)
  case Nil
  then show ?case by simp
next
  case (Cons e es)
  obtain prt info where e: "e = (prt, info)" by (cases e)
  from Cons.prems e obtain a b where a: "product_of_entry prt info = Some a"
    and b: "collect_products es = Some b" and fs: "fs = a @ b"
    by (auto split: Option.bind_splits)
  from product_of_entry_cases[OF a] Cons.IH[OF b] show ?case
    by (auto simp: e fs)
qed

lemma table_products_nonempty:
  "table_products t = Some fs \<Longrightarrow> \<forall>f \<in> set fs. product f \<noteq> []"
proof -
  assume t: "table_products t = Some fs"
  show ?thesis
  proof (cases "truthy t")
    case False
    with t show ?thesis by (simp add: table_products_def)
  next
    case True
    with t obtain es where "collect_products es = Some fs"
      by (auto simp: table_products_def split: Option.bind_splits)
    from collect_products_names[OF this]
    have "set (map product fs) \<subseteq> {p. p \<noteq> []}" by auto
    then show ?thesis by auto
  qed
qed

lemma extract_products_nonempty:
  assumes "extractProductsFromScanResults results = Some products"
  shows "\<forall>f \<in> set products. product f \<noteq> []"
proof -
  from assms obtain t1 t2 a b where "table_products t1 = Some a" "table_products t2 = Some b"
    "products = a @ b"
    by (auto simp: extractProductsFromScanResults_def split: Option.bind_splits)
  with table_products_nonempty show ?thesis by auto
qed

subsection \<open>Enrichment of a scan\<close>

lemma fetchCveData_lookups:
  assumes "\<forall>f \<in> set products. product f \<noteq> []"
    and "\<forall>n < length products. settles (fst (srv n))"
  shows "lookups (snd (fetchCveData srv products)) = map (\<lambda>f. (product f, version f)) products"
  unfolding fetchCveData_def using assms by (intro loop_lookups) simp_all

lemma fetchCveData_last_wins:
  assumes "\<forall>f \<in> set products. product f \<noteq> []"
    and "\<forall>n < length products. settles (fst (srv n))"
    and "i < length products"
    and "\<forall>j. i < j \<and> j < length products \<longrightarrow> product (products ! j) \<noteq> product (products ! i)"
  shows "map_of (fst (fetchCveData srv products)) (product (products ! i))
           = lookup_entry (fst (srv i)) (products ! i)"
proof -
  have "\<forall>k < length products. settles (fst (srv (0 + k)))" using assms(2) by simp
  from loop_last_wins[OF assms(1) this assms(3,4), of "[]"] show ?thesis
    by (simp add: fetchCveData_def)
qed


lemma collect_products_pairs:
  "collect_products es = Some fs \<Longrightarrow>
     map (\<lambda>f. (port f, product f)) fs =
       filter (\<lambda>(prt, p). p \<noteq> []) (map (\<lambda>(prt, info). (prt, entry_product info)) es)"
proof (induction es arbitrary: fs)
  case Nil
  then show ?case by simp
next
  case (Cons e es)
  obtain prt info where e: "e = (prt, info)" by (cases e)
  from Cons.prems e obtain a b where a: "product_of_entry prt info = Some a"
    and b: "collect_products es = Some b" and fs: "fs = a @ b"
    by (auto split: Option.bind_splits)
  from product_of_entry_cases[OF a] Cons.IH[OF b] show ?case
    by (auto simp: e fs)
qed

lemma table_products_pairs:
  assumes "table_products t = Some fs"
  shows "map (\<lambda>f. (port f, product f)) fs =
           filter (\<lambda>(prt, p). p \<noteq> [])
             (map (\<lambda>(prt, info). (prt, entry_product info)) (table_entries t))"
proof (cases "truthy t")
  case False
  with assms show ?thesis by (simp add: table_products_def table_entries_def)
next
  case True
  with assms obtain es where es: "object_entries t = Some es" and c: "collect_products es = Some fs"
    by (auto simp: table_products_def split: Option.bind_splits)
  from collect_products_pairs[OF c] True es show ?thesis by (simp add: table_entries_def)
qed

lemma extract_products_pairs:
  assumes "extractProductsFromScanResults results = Some products"
  shows "map (\<lambda>f. (port f, product f)) products =
           filter (\<lambda>(prt, p). p \<noteq> [])
             (map (\<lambda>(prt, info). (prt, entry_product info))
                (table_entries (opt_prop (opt_prop results ''port_scan'') ''tcp'')
                 @ table_entries (opt_prop results ''tcp'')))"
proof -
  from assms obtain ps legacy a b where ps: "get_prop results ''port_scan'' = Some ps"
    and a: "table_products (opt_prop ps ''tcp'') = Some a"
    and legacy: "get_prop results ''tcp'' = Some legacy"
    and b: "table_products legacy = Some b" and prods: "products = a @ b"
    by (auto simp: extractProductsFromScanResults_def split: Option.bind_splits)
  from ps have t1: "opt_prop results ''port_scan'' = ps" by (simp add: opt_prop_def)
  from legacy have t2: "opt_prop results ''tcp'' = legacy" by (simp add: opt_prop_def)
  from table_products_pairs[OF a] table_products_pairs[OF b] show ?thesis
    by (simp add: prods t1 t2)
qed

lemma count_named_entries:
  "p \<noteq> [] \<Longrightarrow>
     length (filter (\<lambda>q. q = p)
        (map snd (filter (\<lambda>(prt, q). q \<noteq> [])
                    (map (\<lambda>(prt, info). (prt, entry_product info)) es))))
       = length (filter (\<lambda>(prt, info). entry_product info = p) es)"
  by (induction es) auto

lemma getPortData_rows:
  assumes "getPortData results = Some pd" and "object_entries pd = Some rows"
  shows "set rows \<subseteq> set (table_entries (opt_prop (opt_prop results ''port_scan'') ''tcp'')
                           @ table_entries (opt_prop results ''tcp''))"
proof -
  from assms(1) obtain ps where ps: "get_prop results ''port_scan'' = Some ps"
    by (auto simp: getPortData_def split: Option.bind_splits)
  then have t1: "opt_prop results ''port_scan'' = ps" by (simp add: opt_prop_def)
  show ?thesis
  proof (cases "truthy (opt_prop ps ''tcp'')")
    case True
    then obtain v where v: "get_prop ps ''tcp'' = Some v"
      by (cases "get_prop ps ''tcp''") (simp_all add: opt_prop_def)
    with True assms ps have pd: "pd = opt_prop ps ''tcp''"
      by (simp add: getPortData_def opt_prop_def)
    from assms(2) have "object_entries (opt_prop ps ''tcp'') = Some rows"
      unfolding pd .
    then have "table_entries (opt_prop ps ''tcp'') = rows"
      using True by (simp add: table_entries_def)
    then show ?thesis unfolding t1 by auto
  next
    case False
    with assms(1) ps obtain legacy where legacy: "get_prop results ''tcp'' = Some legacy"
      and pd: "pd = (if truthy legacy then legacy else JObj [])"
      by (auto simp: getPortData_def split: Option.bind_splits)
    from legacy have t2: "opt_prop results ''tcp'' = legacy" by (simp add: opt_prop_def)
    show ?thesis
    proof (cases "truthy legacy")
      case True
      with pd assms(2) have "object_entries legacy = Some rows" by simp
      then have "table_entries legacy = rows"
        using True by (simp add: table_entries_def)
      then show ?thesis unfolding t2 by auto
    next
      case False
      with pd assms(2) have "rows = []" by simp
      then show ?thesis by simp
    qed
  qed
qed

lemma last_occurrence:
  "x \<in> set (map g xs) \<Longrightarrow>
     \<exists>i < length xs. g (xs ! i) = x \<and> (\<forall>j. i < j \<and> j < length xs \<longrightarrow> g (xs ! j) \<noteq> x)"
proof (induction xs)
  case Nil
  then show ?case by simp
next
  case (Cons a xs)
  show ?case
  proof (cases "x \<in> set (map g xs)")
    case True
    from Cons.IH[OF this] obtain i where i: "i < length xs" "g (xs ! i) = x"
      and later: "\<forall>j. i < j \<and> j < length xs \<longrightarrow> g (xs ! j) \<noteq> x" by blast
    have "\<forall>j. Suc i < j \<and> j < length (a # xs) \<longrightarrow> g ((a # xs) ! j) \<noteq> x"
    proof (intro allI impI)
      fix j assume j: "Suc i < j \<and> j < length (a # xs)"
      then obtain j' where j': "j = Suc j'" by (cases j) auto
      with j later show "g ((a # xs) ! j) \<noteq> x" by simp
    qed
    with i show ?thesis by (intro exI[of _ "Suc i"]) simp
  next
    case False
    with Cons.prems have a: "g a = x" by simp
    have "\<forall>j. 0 < j \<and> j < length (a # xs) \<longrightarrow> g ((a # xs) ! j) \<noteq> x"
    proof (intro allI impI)
      fix j assume j: "0 < j \<and> j < length (a # xs)"
      then obtain j' where j': "j = Suc j'" by (cases j) auto
      with j have "xs ! j' \<in> set xs" by simp
      with False j' show "g ((a # xs) ! j) \<noteq> x" by auto
    qed
    with a show ?thesis by (intro exI[of _ 0]) simp
  qed
qed

lemma hasCveData_named:
  assumes "get_prop info ''product'' = Some (JStr s)" and "s \<noteq> []" and "trim s = s"
  shows "hasCveData stored info = Some (case map_of stored s of None \<Rightarrow> JUndefined | Some d \<Rightarrow> d)"
  using assms by (simp add: hasCveData_def)



lemma trim_names:
  "trim ''nginx'' = ''nginx''" "trim ''OpenSSH'' = ''OpenSSH''"
  "trim ''8.2p1'' = ''8.2p1''" "trim ''1.18.0'' = ''1.18.0''"
  by (simp_all add: trim_def is_space_def)

lemma dup_scan_products:
  "extractProductsFromScanResults dup_scan = Some [fp_ssh, fp_nginx_80, fp_nginx_8080]"
  by (simp add: extractProductsFromScanResults_def dup_scan_def table_products_def opt_prop_def
      product_of_entry_def fp_ssh_def fp_nginx_80_def fp_nginx_8080_def trim_names)

lemma numbering_run:
  "fetchCveData numbering_service [fp_ssh, fp_nginx_80, fp_nginx_8080] =
     ([(''OpenSSH'', JObj [(''cves'', JArr [JObj [(''id'', JNum 0)]]), (''port'', JStr ''22''),
                            (''service'', JStr ''ssh''), (''version'', JStr ''8.2p1'')]),
       (''nginx'', JObj [(''cves'', JArr [JObj [(''id'', JNum 2)]]), (''port'', JStr ''8080''),
                          (''service'', JStr ''http-proxy''), (''version'', JStr ''1.18.0'')])],
      [Lookup ''OpenSSH'' ''8.2p1'', Settled 120, Sleep 1000,
       Lookup ''nginx'' ''1.18.0'', Settled 120, Sleep 1000,
       Lookup ''nginx'' ''1.18.0'', Settled 120, Sleep 1000])"
  by (simp add: fetchCveData_def numbering_service_def fp_ssh_def fp_nginx_80_def
      fp_nginx_8080_def with_port_info_def spread_def)

lemma padded_scan_products:
  "extractProductsFromScanResults padded_scan =
     Some [\<lparr>port = ''80'', product = ''nginx'', version = ''1.18.0'', service = JStr ''http''\<rparr>,
           \<lparr>port = ''8080'', product = ''nginx'', version = ''1.20.1'', service = JStr ''unknown''\<rparr>,
           \<lparr>port = ''25'', product = ''Postfix'', version = [], service = JStr ''smtp''\<rparr>]"
  by code_simp

lemma padded_scan_ports:
  "getPortData padded_scan = Some (JObj
        [(''80'', JObj [(''name'', JStr ''http''), (''product'', JStr (CHR 0xA0 # ''nginx '')),
                        (''version'', JStr '' 1.18.0'')]),
         (''8080'', JObj [(''product'', JStr ''nginx''), (''version'', JStr ''1.20.1'')])])"
  by code_simp

lemma padded_run:
  "fetchCveData numbering_service
     [\<lparr>port = ''80'', product = ''nginx'', version = ''1.18.0'', service = JStr ''http''\<rparr>,
      \<lparr>port = ''8080'', product = ''nginx'', version = ''1.20.1'', service = JStr ''unknown''\<rparr>,
      \<lparr>port = ''25'', product = ''Postfix'', version = [], service = JStr ''smtp''\<rparr>] =
     ([(''nginx'', JObj [(''cves'', JArr [JObj [(''id'', JNum 1)]]), (''port'', JStr ''8080''),
                          (''service'', JStr ''unknown''), (''version'', JStr ''1.20.1'')]),
       (''Postfix'', JObj [(''cves'', JArr [JObj [(''id'', JNum 2)]]), (''port'', JStr ''25''),
                            (''service'', JStr ''smtp''), (''version'', JStr [])])],
      [Lookup ''nginx'' ''1.18.0'', Settled 120, Sleep 1000,
       Lookup ''nginx'' ''1.20.1'', Settled 120, Sleep 1000,
       Lookup ''Postfix'' [], Settled 120, Sleep 1000])"
  by code_simp

text \<open>
  C1, as amended. Take a scan whose port tables are read without an error and a lookup
  service none of whose calls throws. The fingerprints are the port entries that carry a
  product name, those of the current table followed by those of the legacy table, each
  with its port and its trimmed name. One lookup is issued for every fingerprint, in
  that order: a product carried by k entries is looked up k times. The record kept for
  a product is the answer to the last of its lookups, and it is the record the dashboard
  reads for every listed port whose product name is written without surrounding white
  space.
\<close>

theorem one_lookup_per_port_entry:
  assumes "extractProductsFromScanResults results = Some products"
    and "\<forall>n < length products. settles (fst (srv n))"
  shows "map (\<lambda>f. (port f, product f)) products =
           filter (\<lambda>(prt, p). p \<noteq> [])
             (map (\<lambda>(prt, info). (prt, entry_product info))
                (table_entries (opt_prop (opt_prop results ''port_scan'') ''tcp'')
                 @ table_entries (opt_prop results ''tcp''))) \<and>
         lookups (snd (fetchCveData srv products)) = map (\<lambda>f. (product f, version f)) products \<and>
         (\<forall>p. p \<noteq> [] \<longrightarrow>
            length (filter (\<lambda>(q, v). q = p) (lookups (snd (fetchCveData srv products))))
              = length (filter (\<lambda>(prt, info). entry_product info = p)
                  (table_entries (opt_prop (opt_prop results ''port_scan'') ''tcp'')
                   @ table_entries (opt_prop results ''tcp'')))) \<and>
         (\<forall>i < length products.
            (\<forall>j. i < j \<and> j < length products \<longrightarrow> product (products ! j) \<noteq> product (products ! i))
            \<longrightarrow> map_of (fst (fetchCveData srv products)) (product (products ! i))
                  = lookup_entry (fst (srv i)) (products ! i)) \<and>
         (\<forall>pd rows. getPortData results = Some pd \<and> object_entries pd = Some rows \<longrightarrow>
            (\<forall>(prt, info) \<in> set rows.
               \<forall>s. get_prop info ''product'' = Some (JStr s) \<and> s \<noteq> [] \<and> trim s = s \<longrightarrow>
                 (\<exists>i < length products.
                    product (products ! i) = s \<and>
                    (\<forall>j. i < j \<and> j < length products \<longrightarrow> product (products ! j) \<noteq> s) \<and>
                    lookup_entry (fst (srv i)) (products ! i) \<noteq> None \<and>
                    hasCveData (fst (fetchCveData srv products)) info
                      = lookup_entry (fst (srv i)) (products ! i))))"
proof -
  let ?entries = "table_entries (opt_prop (opt_prop results ''port_scan'') ''tcp'')
                  @ table_entries (opt_prop results ''tcp'')"
  have ne: "\<forall>f \<in> set products. product f \<noteq> []"
    using assms(1) by (rule extract_products_nonempty)
  have pairs: "map (\<lambda>f. (port f, product f)) products =
           filter (\<lambda>(prt, p). p \<noteq> []) (map (\<lambda>(prt, info). (prt, entry_product info)) ?entries)"
    using assms(1) by (rule extract_products_pairs)
  have names: "map product products =
           map snd (filter (\<lambda>(prt, p). p \<noteq> [])
                      (map (\<lambda>(prt, info). (prt, entry_product info)) ?entries))"
  proof -
    have "map product products = map snd (map (\<lambda>f. (port f, product f)) products)"
      by (simp add: comp_def)
    then show ?thesis unfolding pairs .
  qed
  have all: "lookups (snd (fetchCveData srv products))
               = map (\<lambda>f. (product f, version f)) products"
    using ne assms(2) by (rule fetchCveData_lookups)
  have count: "\<forall>p. p \<noteq> [] \<longrightarrow>
            length (filter (\<lambda>(q, v). q = p) (lookups (snd (fetchCveData srv products))))
              = length (filter (\<lambda>(prt, info). entry_product info = p) ?entries)"
  proof (intro allI impI)
    fix p :: string assume p: "p \<noteq> []"
    have "length (filter (\<lambda>(q, v). q = p) (map (\<lambda>f. (product f, version f)) products))
            = length (filter (\<lambda>q. q = p) (map product products))"
      by (induction products) simp_all
    also have "\<dots> = length (filter (\<lambda>(prt, info). entry_product info = p) ?entries)"
      unfolding names using p by (rule count_named_entries)
    finally show "length (filter (\<lambda>(q, v). q = p) (lookups (snd (fetchCveData srv products))))
              = length (filter (\<lambda>(prt, info). entry_product info = p) ?entries)"
      unfolding all .
  qed
  have last_wins: "\<forall>i < length products.
            (\<forall>j. i < j \<and> j < length products \<longrightarrow> product (products ! j) \<noteq> product (products ! i))
            \<longrightarrow> map_of (fst (fetchCveData srv products)) (product (products ! i))
                  = lookup_entry (fst (srv i)) (products ! i)"
    using fetchCveData_last_wins[OF ne assms(2)] by simp
  have shown: "\<forall>pd rows. getPortData results = Some pd \<and> object_entries pd = Some rows \<longrightarrow>
            (\<forall>(prt, info) \<in> set rows.
               \<forall>s. get_prop info ''product'' = Some (JStr s) \<and> s \<noteq> [] \<and> trim s = s \<longrightarrow>
                 (\<exists>i < length products.
                    product (products ! i) = s \<and>
                    (\<forall>j. i < j \<and> j < length products \<longrightarrow> product (products ! j) \<noteq> s) \<and>
                    lookup_entry (fst (srv i)) (products ! i) \<noteq> None \<and>
                    hasCveData (fst (fetchCveData srv products)) info
                      = lookup_entry (fst (srv i)) (products ! i)))"
  proof (intro allI impI ballI, clarify)
    fix pd rows prt info s
    assume pd: "getPortData results = Some pd" and rows: "object_entries pd = Some rows"
      and mem: "(prt, info) \<in> set rows"
      and prod: "get_prop info ''product'' = Some (JStr s)" and s: "s \<noteq> []" and t: "trim s = s"
    from getPortData_rows[OF pd rows] mem have "(prt, info) \<in> set ?entries" by blast
    moreover have "entry_product info = s" using prod t by (simp add: entry_product_def)
    ultimately have "(prt, s) \<in> set (filter (\<lambda>(prt, p). p \<noteq> [])
                        (map (\<lambda>(prt, info). (prt, entry_product info)) ?entries))"
      using s by force
    then have "s \<in> set (map product products)"
      unfolding names by force
    from last_occurrence[OF this] obtain i where i: "i < length products"
      and pi: "product (products ! i) = s"
      and later: "\<forall>j. i < j \<and> j < length products \<longrightarrow> product (products ! j) \<noteq> s"
      by blast
    from last_wins i pi later
    have stored: "map_of (fst (fetchCveData srv products)) s
                    = lookup_entry (fst (srv i)) (products ! i)" by auto
    from assms(2) i have "settles (fst (srv i))" by simp
    then obtain e where e: "lookup_entry (fst (srv i)) (products ! i) = Some e"
      using settles_entry by blast
    have "hasCveData (fst (fetchCveData srv products)) info = Some e"
      unfolding hasCveData_named[OF prod s t] stored e by simp
    with i pi later e
    show "\<exists>i < length products.
            product (products ! i) = s \<and>
            (\<forall>j. i < j \<and> j < length products \<longrightarrow> product (products ! j) \<noteq> s) \<and>
            lookup_entry (fst (srv i)) (products ! i) \<noteq> None \<and>
            hasCveData (fst (fetchCveData srv products)) info
              = lookup_entry (fst (srv i)) (products ! i)"
      by (intro exI[of _ i]) simp
  qed
  from pairs all count last_wins shown show ?thesis by (intro conjI)
qed


theorem one_lookup_per_port_entry_witness:
  "extractProductsFromScanResults padded_scan =
     Some [\<lparr>port = ''80'', product = ''nginx'', version = ''1.18.0'', service = JStr ''http''\<rparr>,
           \<lparr>port = ''8080'', product = ''nginx'', version = ''1.20.1'', service = JStr ''unknown''\<rparr>,
           \<lparr>port = ''25'', product = ''Postfix'', version = [], service = JStr ''smtp''\<rparr>] \<and>
   lookups (snd (fetchCveData numbering_service
     [\<lparr>port = ''80'', product = ''nginx'', version = ''1.18.0'', service = JStr ''http''\<rparr>,
      \<lparr>port = ''8080'', product = ''nginx'', version = ''1.20.1'', service = JStr ''unknown''\<rparr>,
      \<lparr>port = ''25'', product = ''Postfix'', version = [], service = JStr ''smtp''\<rparr>]))
     = [(''nginx'', ''1.18.0''), (''nginx'', ''1.20.1''), (''Postfix'', [])] \<and>
   length (filter (\<lambda>(q, v). q = ''nginx'')
     (lookups (snd (fetchCveData numbering_service
       [\<lparr>port = ''80'', product = ''nginx'', version = ''1.18.0'', service = JStr ''http''\<rparr>,
        \<lparr>port = ''8080'', product = ''nginx'', version = ''1.20.1'', service = JStr ''unknown''\<rparr>,
        \<lparr>port = ''25'', product = ''Postfix'', version = [], service = JStr ''smtp''\<rparr>])))) = 2 \<and>
   fst (fetchCveData numbering_service
     [\<lparr>port = ''80'', product = ''nginx'', version = ''1.18.0'', service = JStr ''http''\<rparr>,
      \<lparr>port = ''8080'', product = ''nginx'', version = ''1.20.1'', service = JStr ''unknown''\<rparr>,
      \<lparr>port = ''25'', product = ''Postfix'', version = [], service = JStr ''smtp''\<rparr>])
     = [(''nginx'', JObj [(''cves'', JArr [JObj [(''id'', JNum 1)]]), (''port'', JStr ''8080''),
                           (''service'', JStr ''unknown''), (''version'', JStr ''1.20.1'')]),
        (''Postfix'', JObj [(''cves'', JArr [JObj [(''id'', JNum 2)]]), (''port'', JStr ''25''),
                             (''service'', JStr ''smtp''), (''version'', JStr [])])] \<and>
   hasCveData (fst (fetchCveData numbering_service
       [\<lparr>port = ''80'', product = ''nginx'', version = ''1.18.0'', service = JStr ''http''\<rparr>,
        \<lparr>port = ''8080'', product = ''nginx'', version = ''1.20.1'', service = JStr ''unknown''\<rparr>,
        \<lparr>port = ''25'', product = ''Postfix'', version = [], service = JStr ''smtp''\<rparr>]))
     (JObj [(''product'', JStr ''nginx''), (''version'', JStr ''1.20.1'')])
     = Some (JObj [(''cves'', JArr [JObj [(''id'', JNum 1)]]), (''port'', JStr ''8080''),
                   (''service'', JStr ''unknown''), (''version'', JStr ''1.20.1'')])"
proof -
  let ?L = "[\<lparr>port = ''80'', product = ''nginx'', version = ''1.18.0'', service = JStr ''http''\<rparr>,
             \<lparr>port = ''8080'', product = ''nginx'', version = ''1.20.1'', service = JStr ''unknown''\<rparr>,
             \<lparr>port = ''25'', product = ''Postfix'', version = [], service = JStr ''smtp''\<rparr>]"
  have s: "\<forall>n < length ?L. settles (fst (numbering_service n))"
    by (simp add: numbering_service_def)
  note inst = one_lookup_per_port_entry[OF padded_scan_products s]
  from inst have a: "lookups (snd (fetchCveData numbering_service ?L))
                       = map (\<lambda>f. (product f, version f)) ?L" by blast
  then have a': "lookups (snd (fetchCveData numbering_service ?L))
                   = [(''nginx'', ''1.18.0''), (''nginx'', ''1.20.1''), (''Postfix'', [])]"
    by simp
  have shown: "hasCveData (fst (fetchCveData numbering_service ?L))
                 (JObj [(''product'', JStr ''nginx''), (''version'', JStr ''1.20.1'')])
               = Some (JObj [(''cves'', JArr [JObj [(''id'', JNum 1)]]), (''port'', JStr ''8080''),
                   (''service'', JStr ''unknown''), (''version'', JStr ''1.20.1'')])"
    unfolding padded_run by (simp add: hasCveData_def trim_names)
  from a' shown show ?thesis
    unfolding padded_scan_products padded_run by simp
qed

text \<open>
  The record of a product is stored under its trimmed name and read under the name as
  the port entry has it: port 80 of the scan above, whose product name is padded, is
  shown no record.
\<close>

lemma padded_name_is_shown_no_record:
  "hasCveData (fst (fetchCveData numbering_service
       [\<lparr>port = ''80'', product = ''nginx'', version = ''1.18.0'', service = JStr ''http''\<rparr>,
        \<lparr>port = ''8080'', product = ''nginx'', version = ''1.20.1'', service = JStr ''unknown''\<rparr>,
        \<lparr>port = ''25'', product = ''Postfix'', version = [], service = JStr ''smtp''\<rparr>]))
     (JObj [(''name'', JStr ''http''), (''product'', JStr (CHR 0xA0 # ''nginx '')),
            (''version'', JStr '' 1.18.0'')])
     = Some JUndefined"
  unfolding padded_run by code_simp

text \<open>
  C1 as the specification states it fails: the scan below has the product
  \<^verbatim>\<open>nginx\<close> behind two ports, and two lookups are issued for it.
\<close>

theorem one_lookup_per_product_counterexample:
  "extractProductsFromScanResults dup_scan = Some [fp_ssh, fp_nginx_80, fp_nginx_8080] \<and>
   product fp_nginx_80 = product fp_nginx_8080 \<and>
   lookups (snd (fetchCveData numbering_service [fp_ssh, fp_nginx_80, fp_nginx_8080]))
     = [(''OpenSSH'', ''8.2p1''), (''nginx'', ''1.18.0''), (''nginx'', ''1.18.0'')]"
  by (simp add: dup_scan_products numbering_run) (simp add: fp_nginx_80_def fp_nginx_8080_def)

text \<open>
  C4 does not hold of the code. With the first lookup rejected, nothing is recorded for
  its product and the second product is never looked up; a lookup that is answered with
  a non-success status, in contrast, is recorded with an error message under its product
  and the run goes on.
\<close>

theorem thrown_lookup_ends_enrichment:
  "fetchCveData broken_service [fp_ssh, fp_nginx_80]
     = ([], [Lookup ''OpenSSH'' ''8.2p1'', Settled 0]) \<and>
   fetchCveData refusing_service [fp_ssh, fp_nginx_80]
     = ([(''OpenSSH'', JObj [(''cves'', JArr []), (''error'', JStr ''Failed to fetch CVE data''),
                              (''port'', JStr ''22''), (''service'', JStr ''ssh''),
                              (''version'', JStr ''8.2p1'')]),
         (''nginx'', JObj [(''cves'', JArr []), (''error'', JStr ''Failed to fetch CVE data''),
                            (''port'', JStr ''80''), (''service'', JStr ''http''),
                            (''version'', JStr ''1.18.0'')])],
        [Lookup ''OpenSSH'' ''8.2p1'', Settled 120, Sleep 1000,
         Lookup ''nginx'' ''1.18.0'', Settled 120, Sleep 1000])"
  by (simp add: fetchCveData_def broken_service_def refusing_service_def fp_ssh_def
      fp_nginx_80_def with_port_info_def)

text \<open>
  In every run, two consecutive lookups are separated by a timer of 1000 milliseconds.
  When every product has a name and no lookup throws, a run over n products takes at
  least n times 1000 ms.
\<close>

lemma lookups_are_spaced:
  "spaced 1000 (snd (fetchCveData srv products)) \<and>
   ((\<forall>f \<in> set products. product f \<noteq> []) \<and> (\<forall>n < length products. settles (fst (srv n)))
      \<longrightarrow> 1000 * length products \<le> elapsed (snd (fetchCveData srv products)))"
proof (intro conjI impI)
  show "spaced 1000 (snd (fetchCveData srv products))"
    unfolding fetchCveData_def by (rule loop_spaced)
  assume h: "(\<forall>f \<in> set products. product f \<noteq> []) \<and>
             (\<forall>n < length products. settles (fst (srv n)))"
  then have "\<forall>k < length products. settles (fst (srv (0 + k)))" by simp
  with h have "1000 * length products \<le> elapsed (snd (fetchCveData_loop srv 0 products []))"
    by (intro loop_elapsed) simp_all
  then show "1000 * length products \<le> elapsed (snd (fetchCveData srv products))"
    by (simp add: fetchCveData_def)
qed

text \<open>
  C6 does not hold of the code. With three products to look up and the first call
  rejected at once, the run ends with that call: no timer is awaited, the two other
  products are not looked up, and the run takes no time at all, which is less than twice
  the spacing of 1000 ms. When the three calls are answered, each of them is followed by
  the timer and the run takes 3360 ms.
\<close>

theorem rejected_lookup_leaves_no_spacing:
  "length [fp_ssh, fp_nginx_80, fp_mysql] = 3 \<and>
   snd (fetchCveData broken_service [fp_ssh, fp_nginx_80, fp_mysql])
     = [Lookup ''OpenSSH'' ''8.2p1'', Settled 0] \<and>
   elapsed (snd (fetchCveData broken_service [fp_ssh, fp_nginx_80, fp_mysql])) = 0 \<and>
   \<not> 2 * 1000 \<le> elapsed (snd (fetchCveData broken_service [fp_ssh, fp_nginx_80, fp_mysql])) \<and>
   snd (fetchCveData numbering_service [fp_ssh, fp_nginx_80, fp_mysql])
     = [Lookup ''OpenSSH'' ''8.2p1'', Settled 120, Sleep 1000,
        Lookup ''nginx'' ''1.18.0'', Settled 120, Sleep 1000,
        Lookup ''MySQL'' ''8.0.32'', Settled 120, Sleep 1000] \<and>
   elapsed (snd (fetchCveData numbering_service [fp_ssh, fp_nginx_80, fp_mysql])) = 3360 \<and>
   spaced 1000 (snd (fetchCveData numbering_service [fp_ssh, fp_nginx_80, fp_mysql]))"
  by (simp add: fetchCveData_def broken_service_def numbering_service_def fp_ssh_def
      fp_nginx_80_def fp_mysql_def)

subsection \<open>Progress of a scan session\<close>

lemma length_SCAN_STEPS: "length SCAN_STEPS = 5"
  by (simp add: SCAN_STEPS_def)

lemma step_progress_doubles:
  "js_mul (js_div 0 5) 80 = 0" "js_mul (js_div 1 5) 80 = 16"
  "js_mul (js_div 2 5) 80 = 32" "js_mul (js_div 3 5) 80 = 48"
  by code_simp+

lemma simulate_steps_from_start:
  "simulate_steps 0 s =
     [s\<lparr>currentScanStep := 0, networkProgress := 0\<rparr>,
      s\<lparr>currentScanStep := 1, networkProgress := 16\<rparr>,
      s\<lparr>currentScanStep := 2, networkProgress := 32\<rparr>,
      s\<lparr>currentScanStep := 3, networkProgress := 48\<rparr>]"
proof -
  have s4: "simulate_steps (Suc (Suc (Suc (Suc 0)))) t = []" for t
    by (subst simulate_steps.simps) (simp add: length_SCAN_STEPS)
  have s3: "simulate_steps (Suc (Suc (Suc 0))) t =
      [t\<lparr>currentScanStep := 3, networkProgress := 48\<rparr>]" for t
    by (subst simulate_steps.simps) (simp add: length_SCAN_STEPS s4 Let_def step_progress_doubles)
  have s2: "simulate_steps (Suc (Suc 0)) t =
      [t\<lparr>currentScanStep := 2, networkProgress := 32\<rparr>,
       t\<lparr>currentScanStep := 3, networkProgress := 48\<rparr>]" for t
    by (subst simulate_steps.simps) (simp add: length_SCAN_STEPS s3 Let_def step_progress_doubles)
  have s1: "simulate_steps (Suc 0) t =
      [t\<lparr>currentScanStep := 1, networkProgress := 16\<rparr>,
       t\<lparr>currentScanStep := 2, networkProgress := 32\<rparr>,
       t\<lparr>currentScanStep := 3, networkProgress := 48\<rparr>]" for t
    by (subst simulate_steps.simps) (simp add: length_SCAN_STEPS s2 Let_def step_progress_doubles)
  show ?thesis
    by (subst simulate_steps.simps) (simp add: length_SCAN_STEPS s1 Let_def step_progress_doubles)
qed

lemma handleNetworkScan_trace:
  assumes "target \<noteq> []"
  shows "handleNetworkScan target resp srv s =
     (let s0 = s\<lparr>networkStatus := PROCESSING, networkProgress := 0,
                  currentScanStep := 0, cveData := []\<rparr>
      in [s0,
          s0\<lparr>currentScanStep := 0, networkProgress := 0\<rparr>,
          s0\<lparr>currentScanStep := 1, networkProgress := 16\<rparr>,
          s0\<lparr>currentScanStep := 2, networkProgress := 32\<rparr>,
          s0\<lparr>currentScanStep := 3, networkProgress := 48\<rparr>]
         @ after_scan resp srv (s0\<lparr>currentScanStep := 3, networkProgress := 48\<rparr>))"
  using assms by (simp add: handleNetworkScan_def simulate_steps_from_start Let_def)

lemma after_scan_nonempty: "after_scan resp srv s \<noteq> []"
  by (simp add: after_scan_def Let_def split: http_result.splits sum.splits option.splits)

lemma after_scan_completed:
  assumes "networkStatus s = PROCESSING" and "st \<in> set (after_scan resp srv s)"
    and "networkStatus st = COMPLETED"
  shows "networkProgress st = 100 \<and> currentScanStep st = 4"
  using assms
  by (auto simp: after_scan_def scan_failed_def Let_def
      split: http_result.splits sum.splits option.splits if_splits)

lemma after_scan_success:
  assumes "extractProductsFromScanResults data = Some products"
  shows "after_scan (Response True code statusText (Inr data)) srv s =
     [s\<lparr>networkResults := data, networkProgress := 80, currentScanStep := 4\<rparr>,
      (if length products > 0
       then s\<lparr>networkResults := data, networkProgress := 80, currentScanStep := 4,
               cveData := fst (fetchCveData srv products)\<rparr>
       else s\<lparr>networkResults := data, networkProgress := 80, currentScanStep := 4\<rparr>)
        \<lparr>networkStatus := COMPLETED, networkProgress := 100\<rparr>]"
  using assms by (simp add: after_scan_def Let_def)

lemma after_scan_first:
  "currentScanStep (after_scan (Response True code statusText (Inr data)) srv s ! 0) = 4 \<and>
   networkProgress (after_scan (Response True code statusText (Inr data)) srv s ! 0) = 80"
  by (simp add: after_scan_def Let_def split: option.splits)

text \<open>
  C5, as amended. A scan session on a non-empty target goes through a sequence of states;
  the state at position i + 1 is the one the step loop sets for step i. For every step
  index i below the last one, that state has current step i and progress
  floor(i / totalSteps * 80), so step 2 of the five steps has progress 32. The last step
  is entered when the scan request has succeeded, with progress 80. A state of the session
  is completed only with progress 100 and the last step as current step, and a session
  whose scan request succeeds and whose payload is read without error ends so.
\<close>

theorem scan_session_progress:
  assumes "target \<noteq> []"
  shows "(\<forall>i < length SCAN_STEPS - 1.
            currentScanStep (handleNetworkScan target resp srv s ! Suc i) = i \<and>
            networkProgress (handleNetworkScan target resp srv s ! Suc i)
              = real_of_int \<lfloor>(real i / real (length SCAN_STEPS)) * 80\<rfloor>) \<and>
         currentScanStep (handleNetworkScan target resp srv s ! 3) = 2 \<and>
         networkProgress (handleNetworkScan target resp srv s ! 3) = 32 \<and>
         (\<forall>code statusText data. resp = Response True code statusText (Inr data) \<longrightarrow>
            currentScanStep (handleNetworkScan target resp srv s ! 5) = length SCAN_STEPS - 1 \<and>
            networkProgress (handleNetworkScan target resp srv s ! 5) = 80) \<and>
         (\<forall>st \<in> set (handleNetworkScan target resp srv s).
            networkStatus st = COMPLETED \<longrightarrow>
              networkProgress st = 100 \<and> currentScanStep st = length SCAN_STEPS - 1) \<and>
         (\<forall>code statusText data products.
            resp = Response True code statusText (Inr data) \<and>
            extractProductsFromScanResults data = Some products \<longrightarrow>
              networkStatus (last (handleNetworkScan target resp srv s)) = COMPLETED \<and>
              networkProgress (last (handleNetworkScan target resp srv s)) = 100 \<and>
              currentScanStep (last (handleNetworkScan target resp srv s)) = length SCAN_STEPS - 1)"
proof -
  let ?s0 = "s\<lparr>networkStatus := PROCESSING, networkProgress := 0,
                 currentScanStep := 0, cveData := []\<rparr>"
  let ?s3 = "?s0\<lparr>currentScanStep := 3, networkProgress := 48\<rparr>"
  let ?sim = "[?s0,
          ?s0\<lparr>currentScanStep := 0, networkProgress := 0\<rparr>,
          ?s0\<lparr>currentScanStep := 1, networkProgress := 16\<rparr>,
          ?s0\<lparr>currentScanStep := 2, networkProgress := 32\<rparr>,
          ?s0\<lparr>currentScanStep := 3, networkProgress := 48\<rparr>]"
  have tr: "handleNetworkScan target resp srv s = ?sim @ after_scan resp srv ?s3"
    using handleNetworkScan_trace[OF assms, of resp srv s] by (simp add: Let_def)
  have loop: "currentScanStep (handleNetworkScan target resp srv s ! Suc i) = i \<and>
            networkProgress (handleNetworkScan target resp srv s ! Suc i)
              = real_of_int \<lfloor>(real i / real (length SCAN_STEPS)) * 80\<rfloor>"
    if "i < length SCAN_STEPS - 1" for i
  proof -
    from that have "i = 0 \<or> i = 1 \<or> i = 2 \<or> i = 3"
      by (auto simp: length_SCAN_STEPS)
    then show ?thesis
      by (elim disjE) (simp_all add: tr length_SCAN_STEPS)
  qed
  have third: "currentScanStep (handleNetworkScan target resp srv s ! 3) = 2 \<and>
               networkProgress (handleNetworkScan target resp srv s ! 3) = 32"
    by (simp add: tr numeral_3_eq_3)
  have fifth: "handleNetworkScan target resp srv s ! 5 = after_scan resp srv ?s3 ! 0"
    by (simp add: tr nth_append)
  have entered: "currentScanStep (handleNetworkScan target resp srv s ! 5) = length SCAN_STEPS - 1 \<and>
            networkProgress (handleNetworkScan target resp srv s ! 5) = 80"
    if "resp = Response True code statusText (Inr data)" for code statusText data
    using fifth after_scan_first[of code statusText data srv ?s3]
    by (simp add: that length_SCAN_STEPS)
  have completed: "networkProgress st = 100 \<and> currentScanStep st = length SCAN_STEPS - 1"
    if "st \<in> set (handleNetworkScan target resp srv s)" "networkStatus st = COMPLETED" for st
  proof -
    from that(1) have "st \<in> set ?sim \<or> st \<in> set (after_scan resp srv ?s3)"
      unfolding tr by simp
    then show ?thesis
    proof
      assume "st \<in> set ?sim"
      with that(2) show ?thesis by auto
    next
      assume "st \<in> set (after_scan resp srv ?s3)"
      from after_scan_completed[OF _ this that(2)] show ?thesis
        by (simp add: length_SCAN_STEPS)
    qed
  qed
  have ends: "networkStatus (last (handleNetworkScan target resp srv s)) = COMPLETED \<and>
              networkProgress (last (handleNetworkScan target resp srv s)) = 100 \<and>
              currentScanStep (last (handleNetworkScan target resp srv s)) = length SCAN_STEPS - 1"
    if "resp = Response True code statusText (Inr data) \<and>
        extractProductsFromScanResults data = Some products" for code statusText data products
  proof -
    from that have r: "resp = Response True code statusText (Inr data)"
      and p: "extractProductsFromScanResults data = Some products" by simp_all
    have "last (handleNetworkScan target resp srv s) = last (after_scan resp srv ?s3)"
      unfolding tr using after_scan_nonempty by simp
    then show ?thesis
      unfolding r by (simp add: after_scan_success[OF p] length_SCAN_STEPS)
  qed
  from loop third entered completed ends show ?thesis by blast
qed

theorem scan_session_progress_witness:
  "currentScanStep (handleNetworkScan ''10.0.0.5'' scan_ok numbering_service idle_state ! 3) = 2 \<and>
   networkProgress (handleNetworkScan ''10.0.0.5'' scan_ok numbering_service idle_state ! 3) = 32 \<and>
   networkStatus (last (handleNetworkScan ''10.0.0.5'' scan_ok numbering_service idle_state))
     = COMPLETED \<and>
   networkProgress (last (handleNetworkScan ''10.0.0.5'' scan_ok numbering_service idle_state))
     = 100 \<and>
   currentScanStep (last (handleNetworkScan ''10.0.0.5'' scan_ok numbering_service idle_state))
     = 4"
proof -
  have t: "''10.0.0.5'' \<noteq> []" by simp
  from scan_session_progress[OF t, of scan_ok numbering_service idle_state] dup_scan_products
  show ?thesis
    by (simp add: scan_ok_def length_SCAN_STEPS)
qed

text \<open>
  C5 as the specification states it fails at the last step: step 4 of 5 is entered with
  progress 80, while floor(4 / 5 * 80) is 64.
\<close>

theorem last_step_progress_counterexample:
  "currentScanStep (handleNetworkScan ''10.0.0.5'' scan_ok numbering_service idle_state ! 5) = 4 \<and>
   networkProgress (handleNetworkScan ''10.0.0.5'' scan_ok numbering_service idle_state ! 5) = 80 \<and>
   real_of_int \<lfloor>(real 4 / real (length SCAN_STEPS)) * 80\<rfloor> = 64"
proof -
  have t: "''10.0.0.5'' \<noteq> []" by simp
  have "handleNetworkScan ''10.0.0.5'' scan_ok numbering_service idle_state ! 5
          = after_scan scan_ok numbering_service
              (idle_state\<lparr>networkStatus := PROCESSING, networkProgress := 0, currentScanStep := 0,
                 cveData := [], currentScanStep := 3, networkProgress := 48\<rparr>) ! 0"
    by (simp add: handleNetworkScan_trace[OF t] Let_def nth_append)
  then show ?thesis
    using after_scan_first[of 200 "''OK''" dup_scan numbering_service]
    by (simp add: scan_ok_def length_SCAN_STEPS)
qed

subsection \<open>The exported report\<close>

lemma generatePDF_chart_on_page:
  assumes "pg ''security-score-chart''"
  shows "generatePDF pg results fileResults = None"
proof -
  obtain ns where ns: "getNetworkStats results = Some ns"
    using getNetworkStats_total by blast
  then have "calculateSecurityScore results fileResults
               = Some (security_score ns (getCodeStats fileResults))"
    by (rule calculateSecurityScore_eq)
  with ns assms show ?thesis
    by (simp add: generatePDF_def captureChart_def)
qed

text \<open>
  C8 does not hold of the code. On the page of the application the export is abandoned
  at its first chart, after the executive summary and before any section is decided on,
  whatever the scan result and the review state are: no report is produced. The scan
  below has a port table, SSL findings and HTTP findings, and gets no report and hence
  no SSL/TLS Security section. On a page without the chart elements the same input gets
  the report with all its sections.
\<close>

theorem export_is_abandoned_at_first_chart:
  "generatePDF dashboard_page results fileResults = None \<and>
   has_network_section score_net = Some True \<and>
   has_entries (opt_prop score_net ''ssl_security_findings'') \<and>
   has_entries (opt_prop score_net ''http_security_findings'') \<and>
   captureChart dashboard_page ''security-score-chart'' = None \<and>
   generatePDF dashboard_page score_net (Some score_files) = None \<and>
   generatePDF (\<lambda>elementId. False) score_net (Some score_files) =
     Some [Heading ''Table of Contents'' 1, Heading ''Executive Summary'' 1,
           Heading ''Network Security Analysis'' 1, Heading ''Open Ports'' 2,
           Heading ''SSL/TLS Security'' 2, Heading ''HTTP Security'' 2,
           Heading ''Source Code Security Review'' 1,
           Heading ''File: a.js'' 2, Heading ''File: b.js'' 2, Heading ''File: c.js'' 2,
           Heading ''File: d.js'' 2, Heading ''File: e.js'' 2, Heading ''File: f.js'' 2,
           Heading ''File: g.js'' 2, Heading ''File: h.js'' 2, Heading ''File: i.js'' 2,
           Heading ''File: j.js'' 2,
           Heading ''Security Recommendations'' 1]"
proof -
  have on_page: "dashboard_page ''security-score-chart''"
    by (simp add: dashboard_page_def)
  have abandoned: "generatePDF dashboard_page r f = None" for r f
    using on_page by (rule generatePDF_chart_on_page)
  have shown: "has_network_section score_net = Some True"
    by code_simp
  have ssl: "has_entries (opt_prop score_net ''ssl_security_findings'')"
    by code_simp
  have http: "has_entries (opt_prop score_net ''http_security_findings'')"
    by code_simp
  have capture: "captureChart dashboard_page ''security-score-chart'' = None"
    using on_page by (simp add: captureChart_def)
  have report: "generatePDF (\<lambda>elementId. False) score_net (Some score_files) =
     Some [Heading ''Table of Contents'' 1, Heading ''Executive Summary'' 1,
           Heading ''Network Security Analysis'' 1, Heading ''Open Ports'' 2,
           Heading ''SSL/TLS Security'' 2, Heading ''HTTP Security'' 2,
           Heading ''Source Code Security Review'' 1,
           Heading ''File: a.js'' 2, Heading ''File: b.js'' 2, Heading ''File: c.js'' 2,
           Heading ''File: d.js'' 2, Heading ''File: e.js'' 2, Heading ''File: f.js'' 2,
           Heading ''File: g.js'' 2, Heading ''File: h.js'' 2, Heading ''File: i.js'' 2,
           Heading ''File: j.js'' 2,
           Heading ''Security Recommendations'' 1]"
    by code_simp
  from abandoned shown ssl http capture report show ?thesis
    by (intro conjI)
qed

text \<open>
  The sections are decided after the first chart. On a page without the chart elements,
  a scan with SSL and HTTP findings and no port table gets a report without a network
  section, and a scan with an empty port table and no findings gets the network section
  with nothing under it.
\<close>

lemma sections_on_a_page_without_charts:
  "has_entries (opt_prop one_port_net ''ssl_security_findings'') \<and>
   generatePDF (\<lambda>elementId. False) one_port_net None =
     Some [Heading ''Table of Contents'' 1, Heading ''Executive Summary'' 1,
           Heading ''Security Recommendations'' 1] \<and>
   generatePDF (\<lambda>elementId. False) empty_table_scan None =
     Some [Heading ''Table of Contents'' 1, Heading ''Executive Summary'' 1,
           Heading ''Network Security Analysis'' 1,
           Heading ''Security Recommendations'' 1]"
  by code_simp

end
